theory Spec2Isabelle
  imports Complex_Main "HOL-Library.Sublist"
begin

section \<open>Crop This Label: the label detection pipeline of \<^verbatim>\<open>src/App.jsx\<close>\<close>

text \<open>
  The component \<^verbatim>\<open>App\<close> keeps five pieces of React state (\<^verbatim>\<open>status\<close>, \<^verbatim>\<open>logs\<close>,
  \<^verbatim>\<open>file\<close>, \<^verbatim>\<open>originalImage\<close>, \<^verbatim>\<open>processedImage\<close>) and the two library flags, and
  changes them only through the setters of \<^verbatim>\<open>useState\<close>. A handler is modelled as the
  list of setter calls it makes, in program order; running the list on a state gives the
  state afterwards. A promise is modelled by the setter calls made until it settles and
  by the error it is rejected with, if any.

  Numbers. Image and rectangle dimensions are non-negative integers (\<open>nat\<close>); their
  products are exact in JavaScript. The thresholds \<^verbatim>\<open>0.01\<close>, \<^verbatim>\<open>0.99\<close>, \<^verbatim>\<open>0.2\<close>, \<^verbatim>\<open>4.0\<close>,
  \<^verbatim>\<open>0.4\<close>, \<^verbatim>\<open>2.5\<close> are taken as the exact rationals they denote, and a quotient of two
  integers as the exact quotient; division by zero gives \<^verbatim>\<open>Infinity\<close> or \<^verbatim>\<open>NaN\<close> as in
  JavaScript. The rounding of binary floating point is not modelled.

  OpenCV and the browser. \<^verbatim>\<open>cv.Mat\<close> is a record of its shape and its pixels.
  \<^verbatim>\<open>cv.rotate\<close>, \<^verbatim>\<open>Mat.roi\<close> and \<^verbatim>\<open>cv.resize\<close> follow the library's documented
  behaviour; the interpolation kernel of \<^verbatim>\<open>cv.resize\<close> is a parameter. The contour
  finder (\<^verbatim>\<open>cvtColor\<close>, \<^verbatim>\<open>GaussianBlur\<close>, \<^verbatim>\<open>threshold\<close>, \<^verbatim>\<open>dilate\<close>, \<^verbatim>\<open>findContours\<close>,
  \<^verbatim>\<open>boundingRect\<close>) is represented by its result: the bounding rectangles of the
  contours, in the order \<^verbatim>\<open>contours.get(i)\<close> returns them. A data URL is identified
  with the image it encodes (PNG is lossless).

  Exceptions. The errors of the model are the ones the code constructs, the ones the
  PDF engine and the file reader hand to \<^verbatim>\<open>handleFileUpload\<close>, and an exception raised
  by the browser or by OpenCV while the image is read and its contours are found (lines
  234 to 267), which the \<^verbatim>\<open>try\<close> block of \<^verbatim>\<open>processImage\<close> hands to \<^verbatim>\<open>reject\<close>. The
  later calls (\<^verbatim>\<open>roi\<close>, \<^verbatim>\<open>rotate\<close>, \<^verbatim>\<open>resize\<close>, \<^verbatim>\<open>imshow\<close>, \<^verbatim>\<open>toDataURL\<close>) are taken to
  return.

  Callbacks. A handler runs up to its first \<^verbatim>\<open>await\<close>; what comes after runs later,
  in a callback of the browser, and other events can be handled in between. A handler
  is therefore also given as the list of its tasks: the stretches of setter calls that
  run without interruption. \<^verbatim>\<open>processImage\<close> sets \<^verbatim>\<open>img.onload\<close> and no
  \<^verbatim>\<open>img.onerror\<close>: for an image that does not load, its promise never settles.
\<close>

subsection \<open>Data\<close>

text \<open>\<^verbatim>\<open>useState('loading') // loading, ready, processing, success, error\<close>\<close>

datatype status = Loading | Ready | Processing | Success | Error

text \<open>\<^verbatim>\<open>const CONFIG = { TARGET_WIDTH: 1200, TARGET_HEIGHT: 1800, MIN_AREA_RATIO: 0.01, MAX_AREA_RATIO: 0.99 }\<close>\<close>

record config =
  TARGET_WIDTH :: nat
  TARGET_HEIGHT :: nat
  MIN_AREA_RATIO :: rat
  MAX_AREA_RATIO :: rat

definition CONFIG :: config where
  "CONFIG = \<lparr>TARGET_WIDTH = 1200, TARGET_HEIGHT = 1800,
             MIN_AREA_RATIO = 0.01, MAX_AREA_RATIO = 0.99\<rparr>"

text \<open>A JavaScript number that is the quotient of two non-negative integers.\<close>

datatype number = Finite rat | Infinity | NaN

fun js_div :: "nat \<Rightarrow> nat \<Rightarrow> number" where
  "js_div a b =
     (if b \<noteq> 0 then Finite (of_nat a / of_nat b)
      else if a = 0 then NaN
      else Infinity)"

text \<open>\<^verbatim>\<open>a < b\<close>: every comparison with \<^verbatim>\<open>NaN\<close> is false.\<close>

fun js_lt :: "number \<Rightarrow> number \<Rightarrow> bool" where
  "js_lt (Finite a) (Finite b) = (a < b)"
| "js_lt (Finite a) Infinity = True"
| "js_lt _ _ = False"

text \<open>\<^verbatim>\<open>a > b\<close>\<close>

definition js_gt :: "number \<Rightarrow> number \<Rightarrow> bool" where
  "js_gt a b = js_lt b a"

text \<open>\<^verbatim>\<open>cv.Rect\<close>: \<^verbatim>\<open>x\<close>, \<^verbatim>\<open>y\<close>, \<^verbatim>\<open>width\<close>, \<^verbatim>\<open>height\<close>.\<close>

record rect =
  rect_x :: nat
  rect_y :: nat
  width :: nat
  height :: nat

text \<open>The objects pushed on \<^verbatim>\<open>candidates\<close>: \<^verbatim>\<open>{ area, rect }\<close>.\<close>

record candidate =
  area :: nat
  rect :: rect

text \<open>\<^verbatim>\<open>cv.Mat\<close>: \<^verbatim>\<open>cols\<close> is the width, \<^verbatim>\<open>rows\<close> the height, \<open>px m i j\<close> the pixel in
  row \<open>i\<close> and column \<open>j\<close>.\<close>

record 'p mat =
  cols :: nat
  rows :: nat
  px :: "nat \<Rightarrow> nat \<Rightarrow> 'p"

text \<open>An \<^verbatim>\<open>Error\<close> object with its \<^verbatim>\<open>message\<close>.\<close>

datatype js_error = JsError (message: string)

definition NoLabelDetected :: js_error where
  "NoLabelDetected = JsError ''No shipping label detected.''"

definition UnsupportedFileType :: js_error where
  "UnsupportedFileType = JsError ''Unsupported file type. Please upload PDF, PNG, or JPG.''"

text \<open>\<^verbatim>\<open>candidates[0].rect\<close> on an empty array.\<close>

definition TypeError :: js_error where
  "TypeError = JsError ''Cannot read properties of undefined (reading 'rect')''"

text \<open>The messages given to \<^verbatim>\<open>addLog\<close>. The time stamp that \<^verbatim>\<open>addLog\<close> puts in front
  of a message is left out.\<close>

datatype log_msg =
    Initializing                \<comment> \<open>\<^verbatim>\<open>Initializing environment...\<close>\<close>
  | PdfEngineLoaded             \<comment> \<open>\<^verbatim>\<open>PDF Engine loaded.\<close>\<close>
  | OpenCVEngineLoaded          \<comment> \<open>\<^verbatim>\<open>OpenCV Engine loaded.\<close>\<close>
  | SystemReady                 \<comment> \<open>\<^verbatim>\<open>System Ready. Upload a shipping label.\<close>\<close>
  | ReadyForNewFile             \<comment> \<open>\<^verbatim>\<open>Ready for new file.\<close>\<close>
  | ProcessingFile string       \<comment> \<open>\<^verbatim>\<open>Processing file: ${uploadedFile.name}\<close>\<close>
  | DetectedPdf                 \<comment> \<open>\<^verbatim>\<open>Detected PDF. Converting to image...\<close>\<close>
  | DetectedImage               \<comment> \<open>\<^verbatim>\<open>Detected Image. Loading...\<close>\<close>
  | PdfLoaded nat               \<comment> \<open>\<^verbatim>\<open>PDF Loaded. Pages: ${pdf.numPages}. Analyzing Page 1...\<close>\<close>
  | ErrorMsg string             \<comment> \<open>\<^verbatim>\<open>Error: ${err.message}\<close>\<close>
  | StartingCV                  \<comment> \<open>\<^verbatim>\<open>Starting Computer Vision analysis...\<close>\<close>
  | FoundContours nat           \<comment> \<open>\<^verbatim>\<open>Found ${contours.size()} potential contours.\<close>\<close>
  | NoContourFound              \<comment> \<open>\<^verbatim>\<open>No specific label contour found. Checking for fallback...\<close>\<close>
  | FallbackTriggered           \<comment> \<open>\<^verbatim>\<open>Fallback triggered: Using full image as label.\<close>\<close>
  | TargetLocked nat nat        \<comment> \<open>\<^verbatim>\<open>Target locked. Cropping area: ${width}x${height}\<close>\<close>
  | DetectedLandscape           \<comment> \<open>\<^verbatim>\<open>Detected Landscape orientation. Rotating 90 degrees...\<close>\<close>
  | ProcessingComplete          \<comment> \<open>\<^verbatim>\<open>Processing Complete!\<close>\<close>

text \<open>The uploaded \<^verbatim>\<open>File\<close>: \<^verbatim>\<open>uploadedFile.name\<close> and \<^verbatim>\<open>uploadedFile.type\<close>.\<close>

record uploaded_file =
  file_name :: string
  file_type :: string

text \<open>\<^verbatim>\<open>librariesLoaded = { cv, pdf }\<close>\<close>

record libraries =
  cv :: bool
  pdf :: bool

datatype library = OpenCV | PdfJs

record 'p app_state =
  status :: status
  logs :: "log_msg list"
  file' :: "uploaded_file option"  \<comment> \<open>\<^verbatim>\<open>file\<close>\<close>
  originalImage :: "'p mat option"
  processedImage :: "'p mat option"
  librariesLoaded :: libraries

text \<open>The state of the first render.\<close>

definition initial_state :: "'p app_state" where
  "initial_state =
     \<lparr>status = Loading, logs = [], file' = None, originalImage = None,
      processedImage = None, librariesLoaded = \<lparr>cv = False, pdf = False\<rparr>\<rparr>"

subsection \<open>Setter calls\<close>

datatype 'p action =
    SetStatus status
  | SetLogs "log_msg list"
  | AddLog log_msg
  | SetFile "uploaded_file option"
  | SetOriginalImage "'p mat option"
  | SetProcessedImage "'p mat option"
  | SetLibraryLoaded library

fun apply_action :: "'p action \<Rightarrow> 'p app_state \<Rightarrow> 'p app_state" where
  "apply_action (SetStatus v) s = s\<lparr>status := v\<rparr>"
| "apply_action (SetLogs v) s = s\<lparr>logs := v\<rparr>"
| "apply_action (AddLog m) s = s\<lparr>logs := logs s @ [m]\<rparr>"
| "apply_action (SetFile v) s = s\<lparr>file' := v\<rparr>"
| "apply_action (SetOriginalImage v) s = s\<lparr>originalImage := v\<rparr>"
| "apply_action (SetProcessedImage v) s = s\<lparr>processedImage := v\<rparr>"
| "apply_action (SetLibraryLoaded OpenCV) s =
     s\<lparr>librariesLoaded := (librariesLoaded s)\<lparr>cv := True\<rparr>\<rparr>"
| "apply_action (SetLibraryLoaded PdfJs) s =
     s\<lparr>librariesLoaded := (librariesLoaded s)\<lparr>pdf := True\<rparr>\<rparr>"

text \<open>The state after a list of setter calls, and the states after each of them.\<close>

fun run :: "'p action list \<Rightarrow> 'p app_state \<Rightarrow> 'p app_state" where
  "run [] s = s"
| "run (a # as) s = run as (apply_action a s)"

fun states :: "'p action list \<Rightarrow> 'p app_state \<Rightarrow> 'p app_state list" where
  "states [] s = []"
| "states (a # as) s = apply_action a s # states as (apply_action a s)"

subsection \<open>OpenCV operations\<close>

datatype rotate_code = ROTATE_90_CLOCKWISE | ROTATE_90_COUNTERCLOCKWISE

text \<open>\<^verbatim>\<open>cv.rotate(src, dst, rotateCode)\<close>: the result has the dimensions of \<open>src\<close>
  swapped. Clockwise, the first row of the result is the first column of \<open>src\<close> read
  from the bottom up.\<close>

fun cv_rotate :: "'p mat \<Rightarrow> rotate_code \<Rightarrow> 'p mat" where
  "cv_rotate src ROTATE_90_CLOCKWISE =
     \<lparr>cols = rows src, rows = cols src, px = (\<lambda>i j. px src (rows src - 1 - j) i)\<rparr>"
| "cv_rotate src ROTATE_90_COUNTERCLOCKWISE =
     \<lparr>cols = rows src, rows = cols src, px = (\<lambda>i j. px src j (cols src - 1 - i))\<rparr>"

text \<open>\<^verbatim>\<open>src.roi(rect)\<close>: the sub-matrix at \<open>rect\<close>.\<close>

definition roi :: "'p mat \<Rightarrow> rect \<Rightarrow> 'p mat" where
  "roi src r =
     \<lparr>cols = width r, rows = height r, px = (\<lambda>i j. px src (rect_y r + i) (rect_x r + j))\<rparr>"

text \<open>\<^verbatim>\<open>cv.resize(src, dst, dsize, 0, 0, cv.INTER_LANCZOS4)\<close>: the result has the size
  \<open>dsize\<close>; the kernel \<open>k\<close> gives the pixel at row \<open>i\<close>, column \<open>j\<close> of the result.\<close>

type_synonym 'p kernel = "'p mat \<Rightarrow> nat \<times> nat \<Rightarrow> nat \<Rightarrow> nat \<Rightarrow> 'p"

definition cv_resize :: "'p kernel \<Rightarrow> 'p mat \<Rightarrow> nat \<times> nat \<Rightarrow> 'p mat" where
  "cv_resize k src dsize = \<lparr>cols = fst dsize, rows = snd dsize, px = k src dsize\<rparr>"

text \<open>\<^verbatim>\<open>Array.prototype.sort(compareFn)\<close>: a stable sort, \<open>a\<close> before \<open>b\<close> when
  \<open>compareFn a b < 0\<close>, elements that compare equal left in their order.\<close>

fun insert_sorted :: "('a \<Rightarrow> 'a \<Rightarrow> int) \<Rightarrow> 'a \<Rightarrow> 'a list \<Rightarrow> 'a list" where
  "insert_sorted compareFn a [] = [a]"
| "insert_sorted compareFn a (b # bs) =
     (if compareFn a b \<le> 0 then a # b # bs else b # insert_sorted compareFn a bs)"

fun array_sort :: "('a \<Rightarrow> 'a \<Rightarrow> int) \<Rightarrow> 'a list \<Rightarrow> 'a list" where
  "array_sort compareFn [] = []"
| "array_sort compareFn (a # as) = insert_sorted compareFn a (array_sort compareFn as)"

subsection \<open>\<^verbatim>\<open>processImage\<close>\<close>

text \<open>The loop over the contours (lines 274 to 291): a rectangle is skipped by the area
  filter or by the aspect ratio filter, otherwise pushed with its area.\<close>

fun collectCandidates :: "nat \<Rightarrow> rect list \<Rightarrow> candidate list" where
  "collectCandidates totalArea [] = []"
| "collectCandidates totalArea (r # rs) =
     (let area = width r * height r in
      if of_nat area < of_nat totalArea * MIN_AREA_RATIO CONFIG
         \<or> of_nat area > of_nat totalArea * MAX_AREA_RATIO CONFIG
      then collectCandidates totalArea rs
      else
        let ratio = js_div (width r) (height r) in
        if js_lt ratio (Finite 0.2) \<or> js_gt ratio (Finite 4.0)
        then collectCandidates totalArea rs
        else \<lparr>area = area, rect = r\<rparr> # collectCandidates totalArea rs)"

text \<open>\<^verbatim>\<open>pageRatio > 0.4 && pageRatio < 2.5\<close> with \<^verbatim>\<open>pageRatio = src.cols / src.rows\<close>.\<close>

definition pageRatioInWindow :: "'p mat \<Rightarrow> bool" where
  "pageRatioInWindow src =
     (let pageRatio = js_div (cols src) (rows src) in
      js_gt pageRatio (Finite 0.4) \<and> js_lt pageRatio (Finite 2.5))"

text \<open>The fallback (lines 296 to 311): the log lines written, and the candidates
  afterwards or the error thrown.\<close>

definition fallback :: "'p mat \<Rightarrow> candidate list \<Rightarrow> log_msg list \<times> (js_error + candidate list)" where
  "fallback src candidates =
     (if candidates = [] then
        if pageRatioInWindow src then
          let fullRect = \<lparr>rect_x = 0, rect_y = 0, width = cols src, height = rows src\<rparr> in
          ([NoContourFound, FallbackTriggered],
           Inr (candidates @ [\<lparr>area = cols src * rows src, rect = fullRect\<rparr>]))
        else ([NoContourFound], Inl NoLabelDetected)
      else ([], Inr candidates))"

text \<open>\<^verbatim>\<open>candidates.sort((a, b) => b.area - a.area); let bestRect = candidates[0].rect;\<close>\<close>

definition byAreaDescending :: "candidate \<Rightarrow> candidate \<Rightarrow> int" where
  "byAreaDescending a b = int (area b) - int (area a)"

definition bestCandidate :: "candidate list \<Rightarrow> js_error + candidate" where
  "bestCandidate candidates =
     (case array_sort byAreaDescending candidates of
        [] \<Rightarrow> Inl TypeError
      | c # _ \<Rightarrow> Inr c)"

text \<open>Lines 269 to 314: from the contours to \<^verbatim>\<open>bestRect\<close>, with the log lines written
  on the way.\<close>

definition selectRegion :: "'p mat \<Rightarrow> rect list \<Rightarrow> log_msg list \<times> (js_error + rect)" where
  "selectRegion src contours =
     (let totalArea = cols src * rows src;
          candidates = collectCandidates totalArea contours
      in case fallback src candidates of
           (ls, Inl e) \<Rightarrow> (FoundContours (length contours) # ls, Inl e)
         | (ls, Inr candidates') \<Rightarrow>
             (case bestCandidate candidates' of
                Inl e \<Rightarrow> (FoundContours (length contours) # ls, Inl e)
              | Inr c \<Rightarrow> (FoundContours (length contours) # ls, Inr (rect c))))"

text \<open>Lines 319 to 325: a crop wider than tall is rotated clockwise.\<close>

definition orient :: "'p mat \<Rightarrow> log_msg list \<times> 'p mat" where
  "orient roi_mat =
     (if cols roi_mat > rows roi_mat
      then ([DetectedLandscape], cv_rotate roi_mat ROTATE_90_CLOCKWISE)
      else ([], roi_mat))"

text \<open>The body of \<^verbatim>\<open>img.onload\<close> in \<^verbatim>\<open>processImage\<close>: the setter calls made, and
  \<open>None\<close> when the promise is resolved or the error it is rejected with. \<open>src\<close> is the
  image as a matrix (\<open>cols\<close> is \<^verbatim>\<open>img.width\<close>, \<open>rows\<close> is \<^verbatim>\<open>img.height\<close>), \<open>found\<close> the
  outcome of lines 234 to 267: the exception raised there, or the bounding rectangles of
  the contours found in the image.\<close>

definition processImage ::
  "'p kernel \<Rightarrow> 'p mat \<Rightarrow> js_error + rect list \<Rightarrow> 'p action list \<times> js_error option" where
  "processImage k src found =
     (case found of
        Inl e \<Rightarrow> ([AddLog StartingCV], Some e)
      | Inr contours \<Rightarrow>
          (case selectRegion src contours of
             (ls, Inl e) \<Rightarrow> (map AddLog (StartingCV # ls), Some e)
           | (ls, Inr bestRect) \<Rightarrow>
               (let (ls', roi_mat) = orient (roi src bestRect);
                    final = cv_resize k roi_mat (TARGET_WIDTH CONFIG, TARGET_HEIGHT CONFIG)
                in (map AddLog (StartingCV # ls
                      @ [TargetLocked (width bestRect) (height bestRect)] @ ls')
                    @ [SetProcessedImage (Some final), SetStatus Success,
                       AddLog ProcessingComplete],
                    None))))"

subsection \<open>Handlers\<close>

text \<open>\<^verbatim>\<open>reset\<close> (lines 88 to 95).\<close>

definition reset :: "'p action list" where
  "reset =
     [SetFile None, SetOriginalImage None, SetProcessedImage None, SetStatus Ready,
      SetLogs [], AddLog ReadyForNewFile]"

text \<open>\<^verbatim>\<open>ctx.getImageData(0, 0, tempCanvas.width, tempCanvas.height)\<close> (line 245), the
  canvas having the size of the image: the browser throws an \<^verbatim>\<open>IndexSizeError\<close> when
  the width or the height is zero, and gives the pixels otherwise. The message is the
  one of Chromium.\<close>

definition IndexSizeError :: "string \<Rightarrow> js_error" where
  "IndexSizeError side =
     JsError (''Failed to execute 'getImageData' on 'CanvasRenderingContext2D': The source ''
              @ side @ '' is 0.'')"

definition getImageData :: "'p mat \<Rightarrow> js_error + 'p mat" where
  "getImageData img =
     (if cols img = 0 then Inl (IndexSizeError ''width'')
      else if rows img = 0 then Inl (IndexSizeError ''height'')
      else Inr img)"

text \<open>Lines 234 to 267: the canvas is read, and OpenCV looks for the contours. \<open>found\<close>
  is the outcome of the calls of OpenCV on the pixels read: an exception, or the bounding
  rectangles of the contours.\<close>

definition analyse :: "'p mat \<Rightarrow> js_error + rect list \<Rightarrow> js_error + rect list" where
  "analyse img found =
     (case getImageData img of
        Inl e \<Rightarrow> Inl e
      | Inr pixels \<Rightarrow> found)"

text \<open>What the browser and the libraries give for one selected file: the file itself
  (\<^verbatim>\<open>e.target.files[0]\<close>, which may be missing), the outcome of
  \<^verbatim>\<open>pdfjsLib.getDocument\<close> (an error, or the number of pages and the outcome of rendering
  page 1), the outcome of the \<^verbatim>\<open>FileReader\<close>, whether the image loads (\<^verbatim>\<open>img.onload\<close>
  fires), and the outcome of the search for contours on the pixels of the image.\<close>

record 'p upload =
  uploadedFile :: "uploaded_file option"
  pdfDocument :: "js_error + nat \<times> (js_error + 'p mat)"
  dataURL :: "js_error + 'p mat"
  imageLoads :: bool
  contours :: "js_error + rect list"

text \<open>\<^verbatim>\<open>convertPdfToImage\<close> (lines 139 to 161): the log line written, and the image
  or the error thrown.\<close>

definition convertPdfToImage ::
  "js_error + nat \<times> (js_error + 'p mat) \<Rightarrow> log_msg list \<times> (js_error + 'p mat)" where
  "convertPdfToImage doc =
     (case doc of
        Inl e \<Rightarrow> ([], Inl e)
      | Inr (numPages, rendered) \<Rightarrow> ([PdfLoaded numPages], rendered))"

text \<open>\<^verbatim>\<open>readFileAsDataURL\<close> (lines 130 to 137).\<close>

definition readFileAsDataURL :: "js_error + 'p mat \<Rightarrow> js_error + 'p mat" where
  "readFileAsDataURL r = r"

text \<open>The \<^verbatim>\<open>try\<close> block of \<^verbatim>\<open>handleFileUpload\<close> (lines 107 to 122): the setter calls
  made, and the error caught, if any. When the image does not load, the promise of
  \<^verbatim>\<open>processImage\<close> stays pending: the block makes no further call and catches nothing.\<close>

definition tryUpload ::
  "'p kernel \<Rightarrow> 'p upload \<Rightarrow> uploaded_file \<Rightarrow> 'p action list \<times> js_error option" where
  "tryUpload k u f =
     (let (acts, imageSrc) =
        (if file_type f = ''application/pdf'' then
           (let (ls, r) = convertPdfToImage (pdfDocument u)
            in (map AddLog (DetectedPdf # ls), r))
         else if prefix ''image/'' (file_type f) then
           ([AddLog DetectedImage], readFileAsDataURL (dataURL u))
         else ([], Inl UnsupportedFileType))
      in case imageSrc of
           Inl e \<Rightarrow> (acts, Some e)
         | Inr img \<Rightarrow>
             if imageLoads u then
               (let (acts', r) = processImage k img (analyse img (contours u))
                in (acts @ [SetOriginalImage (Some img)] @ acts', r))
             else (acts @ [SetOriginalImage (Some img)], None))"

text \<open>\<^verbatim>\<open>handleFileUpload\<close> (lines 98 to 128): all its setter calls, in program order.\<close>

definition handleFileUpload :: "'p kernel \<Rightarrow> 'p upload \<Rightarrow> 'p action list" where
  "handleFileUpload k u =
     (case uploadedFile u of
        None \<Rightarrow> []
      | Some f \<Rightarrow>
          reset
          @ [SetFile (Some f), SetStatus Processing, AddLog (ProcessingFile (file_name f))]
          @ (case tryUpload k u f of
               (acts, None) \<Rightarrow> acts
             | (acts, Some err) \<Rightarrow> acts @ [SetStatus Error, AddLog (ErrorMsg (message err))]))"

text \<open>\<^verbatim>\<open>handleRotate\<close> (lines 163 to 190): all its setter calls, in program order. The
  handler sets \<^verbatim>\<open>processing\<close>, and the \<^verbatim>\<open>onload\<close> callback of the image stores the
  rotated image and puts the status back.\<close>

datatype direction = Left | Right

definition handleRotate :: "direction \<Rightarrow> 'p app_state \<Rightarrow> 'p action list" where
  "handleRotate dir s =
     (case processedImage s of
        None \<Rightarrow> []
      | Some img \<Rightarrow>
          (let oldStatus = status s;
               rotateCode = (if dir = Left then ROTATE_90_COUNTERCLOCKWISE
                             else ROTATE_90_CLOCKWISE)
           in [SetStatus Processing,
               SetProcessedImage (Some (cv_rotate img rotateCode)),
               SetStatus oldStatus]))"

text \<open>A library has loaded (lines 45 to 49 and 62 to 65), followed by the effect on
  \<^verbatim>\<open>librariesLoaded\<close> (lines 76 to 81).\<close>

definition libraryLoaded :: "library \<Rightarrow> 'p app_state \<Rightarrow> 'p action list" where
  "libraryLoaded lib s =
     (let s' = apply_action (SetLibraryLoaded lib) s
      in [SetLibraryLoaded lib,
          AddLog (case lib of PdfJs \<Rightarrow> PdfEngineLoaded | OpenCV \<Rightarrow> OpenCVEngineLoaded)]
         @ (if cv (librariesLoaded s') \<and> pdf (librariesLoaded s')
            then [SetStatus Ready, AddLog SystemReady] else []))"

subsection \<open>Tasks\<close>

text \<open>The \<^verbatim>\<open>catch\<close> block of \<^verbatim>\<open>handleFileUpload\<close> (lines 123 to 127).\<close>

definition catchBlock :: "js_error \<Rightarrow> 'p action list" where
  "catchBlock err = [SetStatus Error, AddLog (ErrorMsg (message err))]"

text \<open>The tasks of \<^verbatim>\<open>handleFileUpload\<close> once it has the image: the rest of the \<^verbatim>\<open>try\<close>
  block up to the \<^verbatim>\<open>await\<close> of \<^verbatim>\<open>processImage\<close>, and, when the image loads, the body of
  \<^verbatim>\<open>img.onload\<close> with what follows the settled promise.\<close>

definition imageTasks :: "'p kernel \<Rightarrow> 'p upload \<Rightarrow> 'p mat \<Rightarrow> 'p action list list" where
  "imageTasks k u img =
     [SetOriginalImage (Some img)]
     # (if imageLoads u then
          [let (acts, r) = processImage k img (analyse img (contours u))
           in acts @ (case r of None \<Rightarrow> [] | Some err \<Rightarrow> catchBlock err)]
        else [])"

text \<open>The tasks of \<^verbatim>\<open>handleFileUpload\<close>. The first one is the handler up to its first
  \<^verbatim>\<open>await\<close>, or up to the end of the \<^verbatim>\<open>catch\<close> block for a file of another type. The
  next ones start where \<^verbatim>\<open>getDocument\<close>, the rendering of the page or the \<^verbatim>\<open>FileReader\<close>
  has settled.\<close>

definition uploadTasks :: "'p kernel \<Rightarrow> 'p upload \<Rightarrow> 'p action list list" where
  "uploadTasks k u =
     (case uploadedFile u of
        None \<Rightarrow> []
      | Some f \<Rightarrow>
          (let started = reset @ [SetFile (Some f), SetStatus Processing,
                                  AddLog (ProcessingFile (file_name f))]
           in if file_type f = ''application/pdf'' then
                (started @ [AddLog DetectedPdf])
                # (case pdfDocument u of
                     Inl e \<Rightarrow> [catchBlock e]
                   | Inr (numPages, rendered) \<Rightarrow>
                       [AddLog (PdfLoaded numPages)]
                       # (case rendered of
                            Inl e \<Rightarrow> [catchBlock e]
                          | Inr img \<Rightarrow> imageTasks k u img))
              else if prefix ''image/'' (file_type f) then
                (started @ [AddLog DetectedImage])
                # (case readFileAsDataURL (dataURL u) of
                     Inl e \<Rightarrow> [catchBlock e]
                   | Inr img \<Rightarrow> imageTasks k u img)
              else [started @ catchBlock UnsupportedFileType]))"

text \<open>The tasks of \<^verbatim>\<open>handleRotate\<close>: the handler (lines 164 to 167), and the
  \<^verbatim>\<open>onload\<close> callback (lines 171 to 187) with the image and the status the handler
  found.\<close>

definition rotateTasks :: "direction \<Rightarrow> 'p app_state \<Rightarrow> 'p action list list" where
  "rotateTasks dir s =
     (case processedImage s of
        None \<Rightarrow> []
      | Some img \<Rightarrow>
          (let oldStatus = status s;
               rotateCode = (if dir = Left then ROTATE_90_COUNTERCLOCKWISE
                             else ROTATE_90_CLOCKWISE)
           in [[SetStatus Processing],
               [SetProcessedImage (Some (cv_rotate img rotateCode)), SetStatus oldStatus]]))"

subsection \<open>Events\<close>

text \<open>What can start a handler, and when the page lets it: the file input is disabled
  while the status is \<^verbatim>\<open>processing\<close> or \<^verbatim>\<open>loading\<close>; the rotate buttons and the reset
  button of the toolbar are disabled while there is no processed image; the second reset
  button is rendered while the status is \<^verbatim>\<open>error\<close>; each library script loads once.
  The log line written on mount (line 39), and the branches of the mount effect for a
  library that is present already (lines 51 to 53 and 68 to 70), which set the flag as
  \<open>LibraryLoaded\<close> does but write no log line, are left out.\<close>

datatype 'p input =
    LibraryLoaded library
  | ClickReset
  | FileSelected "'p upload"
  | ClickRotate direction

fun enabled :: "'p input \<Rightarrow> 'p app_state \<Rightarrow> bool" where
  "enabled (LibraryLoaded OpenCV) s = (\<not> cv (librariesLoaded s))"
| "enabled (LibraryLoaded PdfJs) s = (\<not> pdf (librariesLoaded s))"
| "enabled ClickReset s = (processedImage s \<noteq> None \<or> status s = Error)"
| "enabled (FileSelected u) s = (\<not> (status s = Processing \<or> status s = Loading))"
| "enabled (ClickRotate dir) s = (processedImage s \<noteq> None)"

text \<open>The tasks of an input. A library that has loaded is one task: the effect on
  \<^verbatim>\<open>librariesLoaded\<close> runs after the render that follows the setter call, before
  another event is handled, and in the state rendered in between the status is the one
  before.\<close>

fun tasks :: "'p kernel \<Rightarrow> 'p input \<Rightarrow> 'p app_state \<Rightarrow> 'p action list list" where
  "tasks k (LibraryLoaded lib) s = [libraryLoaded lib s]"
| "tasks k ClickReset s = [reset]"
| "tasks k (FileSelected u) s = uploadTasks k u"
| "tasks k (ClickRotate dir) s = rotateTasks dir s"

text \<open>The page: the React state, rendered after every task, and for every handler
  that has not come to its end the tasks it still has to run. An event is an input that
  the page lets through or not, or the callback that runs the next task of one of the
  pending handlers. The callbacks of one handler come in their order; between them any
  other event may be handled.\<close>

record 'p page =
  app :: "'p app_state"
  pending :: "'p action list list list"

datatype 'p event = Input "'p input" | Callback nat

definition outstanding :: "'p action list list list \<Rightarrow> 'p action list list list" where
  "outstanding hs = filter (\<lambda>ts. ts \<noteq> []) hs"

text \<open>The task that an event runs, and the page after it.\<close>

fun fire :: "'p kernel \<Rightarrow> 'p event \<Rightarrow> 'p page \<Rightarrow> 'p action list \<times> 'p page" where
  "fire k (Input i) p =
     (if enabled i (app p) then
        (case tasks k i (app p) of
           [] \<Rightarrow> ([], p)
         | t # ts \<Rightarrow> (t, \<lparr>app = run t (app p), pending = outstanding (pending p @ [ts])\<rparr>))
      else ([], p))"
| "fire k (Callback n) p =
     (if n < length (pending p) then
        (case pending p ! n of
           [] \<Rightarrow> ([], p)
         | t # ts \<Rightarrow>
             (t, \<lparr>app = run t (app p), pending = outstanding ((pending p)[n := ts])\<rparr>))
      else ([], p))"

text \<open>The states after each setter call, and the states rendered after each task,
  while a sequence of events is handled.\<close>

fun calls :: "'p kernel \<Rightarrow> 'p event list \<Rightarrow> 'p page \<Rightarrow> 'p app_state list" where
  "calls k [] p = []"
| "calls k (e # es) p = states (fst (fire k e p)) (app p) @ calls k es (snd (fire k e p))"

fun renders :: "'p kernel \<Rightarrow> 'p event list \<Rightarrow> 'p page \<Rightarrow> 'p app_state list" where
  "renders k [] p = []"
| "renders k (e # es) p = app (snd (fire k e p)) # renders k es (snd (fire k e p))"

text \<open>The page of the first render.\<close>

definition first_page :: "'p page" where
  "first_page = \<lparr>app = initial_state, pending = []\<rparr>"

text \<open>A sequence of events in which every input comes while no handler is pending.\<close>

fun in_turn :: "'p kernel \<Rightarrow> 'p event list \<Rightarrow> 'p page \<Rightarrow> bool" where
  "in_turn k [] p = True"
| "in_turn k (Input i # es) p = (pending p = [] \<and> in_turn k es (snd (fire k (Input i) p)))"
| "in_turn k (Callback n # es) p = in_turn k es (snd (fire k (Callback n) p))"

subsection \<open>Transitions of the status\<close>

text \<open>What a change of the status goes with, in every order of the events. The status
  leaves \<^verbatim>\<open>loading\<close> for \<^verbatim>\<open>ready\<close> only and never comes back to it. It becomes
  \<^verbatim>\<open>ready\<close> with the file and both images discarded (\<^verbatim>\<open>reset\<close>). It becomes
  \<^verbatim>\<open>processing\<close> with a processed image (the manual rotation) or with a file and
  without an original image (the start of an upload). It becomes \<^verbatim>\<open>success\<close> with a
  processed image.\<close>

definition transition :: "'p app_state \<Rightarrow> 'p app_state \<Rightarrow> bool" where
  "transition s s' \<longleftrightarrow>
       status s' = status s
     \<or> (status s = Loading \<and> status s' = Ready)
     \<or> (status s \<noteq> Loading \<and> status s' = Ready
          \<and> file' s' = None \<and> originalImage s' = None \<and> processedImage s' = None)
     \<or> (status s \<noteq> Loading \<and> status s' = Processing
          \<and> (processedImage s' = None \<longrightarrow> file' s' \<noteq> None \<and> originalImage s' = None))
     \<or> (status s \<noteq> Loading \<and> status s' = Success \<and> processedImage s' \<noteq> None)
     \<or> (status s \<noteq> Loading \<and> status s' = Error)"

text \<open>The transitions between two setter calls when every input comes in turn: none;
  \<^verbatim>\<open>loading\<close> to \<^verbatim>\<open>ready\<close>; \<^verbatim>\<open>ready\<close> to \<^verbatim>\<open>processing\<close>; \<^verbatim>\<open>processing\<close> to
  \<^verbatim>\<open>success\<close> or \<^verbatim>\<open>error\<close>; \<^verbatim>\<open>success\<close> or \<^verbatim>\<open>error\<close> to \<^verbatim>\<open>ready\<close> with the file and
  both images discarded; \<^verbatim>\<open>success\<close> to \<^verbatim>\<open>processing\<close> while there is a processed
  image.\<close>

definition transition_in_turn :: "'p app_state \<Rightarrow> 'p app_state \<Rightarrow> bool" where
  "transition_in_turn s s' \<longleftrightarrow>
       status s' = status s
     \<or> (status s = Loading \<and> status s' = Ready)
     \<or> (status s = Ready \<and> status s' = Processing)
     \<or> (status s = Processing \<and> (status s' = Success \<or> status s' = Error))
     \<or> ((status s = Success \<or> status s = Error) \<and> status s' = Ready
          \<and> file' s' = None \<and> originalImage s' = None \<and> processedImage s' = None)
     \<or> (status s = Success \<and> status s' = Processing \<and> processedImage s \<noteq> None)"

text \<open>The transitions between two tasks when every input comes in turn. The start of
  an upload is one task, in which \<^verbatim>\<open>reset\<close> is called and the status is set to
  \<^verbatim>\<open>processing\<close>, and for a file of another type to \<^verbatim>\<open>error\<close>: the status
  \<^verbatim>\<open>ready\<close> of the reset is not rendered.\<close>

definition render_in_turn :: "'p app_state \<Rightarrow> 'p app_state \<Rightarrow> bool" where
  "render_in_turn s s' \<longleftrightarrow>
       status s' = status s
     \<or> (status s = Loading \<and> status s' = Ready)
     \<or> ((status s = Ready \<or> status s = Success \<or> status s = Error)
          \<and> (status s' = Processing \<or> status s' = Error)
          \<and> file' s' \<noteq> None \<and> originalImage s' = None \<and> processedImage s' = None)
     \<or> (status s = Success \<and> status s' = Processing
          \<and> processedImage s \<noteq> None \<and> processedImage s' = processedImage s)
     \<or> (status s = Processing \<and> status s' = Success \<and> processedImage s' \<noteq> None)
     \<or> (status s = Processing \<and> status s' = Error)
     \<or> ((status s = Success \<or> status s = Error) \<and> status s' = Ready
          \<and> file' s' = None \<and> originalImage s' = None \<and> processedImage s' = None)"

text \<open>The state machine as the specification words it: \<^verbatim>\<open>ready\<close> to
  \<^verbatim>\<open>processing\<close>, \<^verbatim>\<open>processing\<close> to \<^verbatim>\<open>success\<close> or \<^verbatim>\<open>error\<close>, and \<^verbatim>\<open>success\<close> or
  \<^verbatim>\<open>error\<close> back to \<^verbatim>\<open>ready\<close>.\<close>

definition spec_transition :: "status \<Rightarrow> status \<Rightarrow> bool" where
  "spec_transition a b \<longleftrightarrow>
       (a = Ready \<and> b = Processing)
     \<or> (a = Processing \<and> (b = Success \<or> b = Error))
     \<or> ((a = Success \<or> a = Error) \<and> b = Ready)"

text \<open>The setter calls that leave the status, the processed image and the library
  flags alone.\<close>

fun quiet :: "'p action \<Rightarrow> bool" where
  "quiet (SetLogs v) = True"
| "quiet (AddLog m) = True"
| "quiet (SetFile v) = True"
| "quiet (SetOriginalImage v) = True"
| "quiet _ = False"

text \<open>The tasks that callbacks run: quiet calls, the status set to \<^verbatim>\<open>error\<close>, and a
  processed image stored with the status set right after it to \<^verbatim>\<open>success\<close>,
  \<^verbatim>\<open>processing\<close> or \<^verbatim>\<open>error\<close>.\<close>

inductive later_task :: "'p action list \<Rightarrow> bool" where
  Done: "later_task []"
| Quiet: "quiet a \<Longrightarrow> later_task as \<Longrightarrow> later_task (a # as)"
| Caught: "later_task as \<Longrightarrow> later_task (SetStatus Error # as)"
| Stored: "v = Success \<or> v = Processing \<or> v = Error \<Longrightarrow> later_task as \<Longrightarrow>
     later_task (SetProcessedImage (Some img) # SetStatus v # as)"

text \<open>What holds of the page between two events, in every order of the events.\<close>

definition sound_page :: "'p page \<Rightarrow> bool" where
  "sound_page p \<longleftrightarrow>
       (status (app p) = Loading \<longrightarrow> pending p = [] \<and> processedImage (app p) = None)
     \<and> (status (app p) \<noteq> Loading \<longrightarrow>
          cv (librariesLoaded (app p)) \<and> pdf (librariesLoaded (app p)))
     \<and> (processedImage (app p) \<noteq> None \<longrightarrow> status (app p) \<noteq> Ready)
     \<and> (\<forall>ts \<in> set (pending p). \<forall>t \<in> set ts. later_task t)"

text \<open>The tasks that an upload still has to run, when nothing else is pending: tasks
  of quiet calls, of which the last may end in the \<^verbatim>\<open>catch\<close> block or with the last
  three calls of \<^verbatim>\<open>processImage\<close>.\<close>

definition ending :: "'p action list \<Rightarrow> bool" where
  "ending t \<longleftrightarrow>
     (\<exists>q. (\<forall>a \<in> set q. quiet a)
        \<and> (t = q
           \<or> (\<exists>m. t = q @ [SetStatus Error, AddLog m])
           \<or> (\<exists>img m. t = q @ [SetProcessedImage (Some img), SetStatus Success, AddLog m])))"

fun closing :: "'p action list list \<Rightarrow> bool" where
  "closing [] = True"
| "closing [t] = ending t"
| "closing (t # ts) = ((\<forall>a \<in> set t. quiet a) \<and> closing ts)"

text \<open>What holds of the page between two events when every input comes in turn:
  nothing is pending, and there is a processed image just when the status is
  \<^verbatim>\<open>success\<close>; or the status is \<^verbatim>\<open>processing\<close> with one handler pending, an upload
  without a processed image or a rotation with one.\<close>

definition turn_page :: "'p page \<Rightarrow> bool" where
  "turn_page p \<longleftrightarrow>
       (status (app p) \<noteq> Loading \<longrightarrow>
          cv (librariesLoaded (app p)) \<and> pdf (librariesLoaded (app p)))
     \<and> ((pending p = [] \<and> (processedImage (app p) \<noteq> None \<longleftrightarrow> status (app p) = Success))
        \<or> (status (app p) = Processing \<and> processedImage (app p) = None
             \<and> (\<exists>ts. pending p = [ts] \<and> ts \<noteq> [] \<and> closing ts))
        \<or> (status (app p) = Processing \<and> processedImage (app p) \<noteq> None
             \<and> (\<exists>img. pending p = [[[SetProcessedImage (Some img), SetStatus Success]]])))"

definition chain ::
  "('p app_state \<Rightarrow> 'p app_state \<Rightarrow> bool) \<Rightarrow> 'p app_state \<Rightarrow> 'p action list \<Rightarrow> bool" where
  "chain T s as = successively T (s # states as s)"

text \<open>The React state without the library flags.\<close>

definition observable ::
  "'p app_state \<Rightarrow>
     status \<times> log_msg list \<times> uploaded_file option \<times> 'p mat option \<times> 'p mat option" where
  "observable s = (status s, logs s, file' s, originalImage s, processedImage s)"

subsection \<open>Example inputs\<close>

definition blankPage :: "nat \<Rightarrow> nat \<Rightarrow> nat mat" where
  "blankPage w h = \<lparr>cols = w, rows = h, px = (\<lambda>i j. 0)\<rparr>"

definition constKernel :: "nat kernel" where
  "constKernel src dsize i j = 0"

definition portraitLabel :: rect where
  "portraitLabel = \<lparr>rect_x = 200, rect_y = 200, width = 1000, height = 1500\<rparr>"

definition landscapeLabel :: rect where
  "landscapeLabel = \<lparr>rect_x = 200, rect_y = 200, width = 1500, height = 1000\<rparr>"

definition tiedContours :: "rect list" where
  "tiedContours =
     [\<lparr>rect_x = 0, rect_y = 0, width = 10, height = 10\<rparr>,
      \<lparr>rect_x = 1, rect_y = 1, width = 20, height = 20\<rparr>,
      \<lparr>rect_x = 5, rect_y = 5, width = 10, height = 40\<rparr>,
      \<lparr>rect_x = 0, rect_y = 0, width = 40, height = 10\<rparr>]"

definition labelUpload :: "nat upload" where
  "labelUpload =
     \<lparr>uploadedFile = Some \<lparr>file_name = ''label.png'', file_type = ''image/png''\<rparr>,
      pdfDocument = Inl (JsError ''not a PDF''),
      dataURL = Inr (blankPage 2400 3600),
      imageLoads = True,
      contours = Inr [portraitLabel]\<rparr>"

text \<open>A file whose image is 0 wide and 100 high, and loads; and the same file with an
  image that does not load.\<close>

definition emptyUpload :: "nat upload" where
  "emptyUpload =
     \<lparr>uploadedFile = Some \<lparr>file_name = ''empty.svg'', file_type = ''image/svg+xml''\<rparr>,
      pdfDocument = Inl (JsError ''not a PDF''),
      dataURL = Inr (blankPage 0 100),
      imageLoads = True,
      contours = Inr []\<rparr>"

definition brokenUpload :: "nat upload" where
  "brokenUpload = emptyUpload\<lparr>imageLoads := False\<rparr>"

text \<open>A file of a type that is neither PDF nor image, and an image file that the
  \<^verbatim>\<open>FileReader\<close> fails to read.\<close>

definition textUpload :: "nat upload" where
  "textUpload =
     \<lparr>uploadedFile = Some \<lparr>file_name = ''notes.txt'', file_type = ''text/plain''\<rparr>,
      pdfDocument = Inl (JsError ''not a PDF''),
      dataURL = Inl (JsError ''not read''),
      imageLoads = False,
      contours = Inr []\<rparr>"

definition failedUpload :: "nat upload" where
  "failedUpload =
     \<lparr>uploadedFile = Some \<lparr>file_name = ''gone.png'', file_type = ''image/png''\<rparr>,
      pdfDocument = Inl (JsError ''not a PDF''),
      dataURL = Inl (JsError ''not read''),
      imageLoads = False,
      contours = Inr []\<rparr>"

text \<open>Both libraries load, a label is uploaded and processed, and the result is rotated
  to the left, every input coming when the handler before it has ended.\<close>

definition labelEvents :: "nat event list" where
  "labelEvents =
     [Input (LibraryLoaded OpenCV), Input (LibraryLoaded PdfJs),
      Input (FileSelected labelUpload), Callback 0, Callback 0,
      Input (ClickRotate Left), Callback 0]"

text \<open>A text file is selected, then the label, and when it is processed the text file
  again, every input in its turn.\<close>

definition retryEvents :: "nat event list" where
  "retryEvents =
     [Input (LibraryLoaded OpenCV), Input (LibraryLoaded PdfJs),
      Input (FileSelected textUpload),
      Input (FileSelected labelUpload), Callback 0, Callback 0,
      Input (FileSelected textUpload)]"

text \<open>The label is uploaded and processed; then the rotate button and the reset button
  are clicked before the rotated image has loaded.\<close>

definition raceEvents :: "nat event list" where
  "raceEvents =
     [Input (LibraryLoaded OpenCV), Input (LibraryLoaded PdfJs),
      Input (FileSelected labelUpload), Callback 0, Callback 0,
      Input (ClickRotate Left), Input ClickReset, Callback 0]"

text \<open>The label is uploaded and processed. Then, three times, the rotate button and the
  reset button are clicked before the rotated image has loaded. The first time the text
  file is selected before it loads. The second time the unreadable file is selected, and
  the rotated image loads before the \<^verbatim>\<open>FileReader\<close> fails. The third time the rotated
  image loads after the reset.\<close>

definition staleEvents :: "nat event list" where
  "staleEvents =
     [Input (LibraryLoaded OpenCV), Input (LibraryLoaded PdfJs),
      Input (FileSelected labelUpload), Callback 0, Callback 0,
      Input (ClickRotate Left), Input ClickReset, Input (FileSelected textUpload),
      Callback 0,
      Input (ClickRotate Left), Input ClickReset, Input (FileSelected failedUpload),
      Callback 0, Callback 0,
      Input (ClickRotate Left), Input ClickReset, Callback 0]"

definition processedState :: "nat app_state" where
  "processedState =
     \<lparr>status = Success, logs = [ProcessingComplete],
      file' = Some \<lparr>file_name = ''label.png'', file_type = ''image/png''\<rparr>,
      originalImage = Some (blankPage 2400 3600),
      processedImage = Some (blankPage 1200 1800),
      librariesLoaded = \<lparr>cv = True, pdf = True\<rparr>\<rparr>"

section \<open>Properties\<close>

subsection \<open>Running setter calls\<close>

lemma run_append: "run (as @ bs) s = run bs (run as s)"
  by (induction as arbitrary: s) simp_all

lemma states_append: "states (as @ bs) s = states as s @ states bs (run as s)"
  by (induction as arbitrary: s) simp_all

lemma run_AddLog: "run (map AddLog ls) s = s\<lparr>logs := logs s @ ls\<rparr>"
  by (induction ls arbitrary: s) simp_all

lemma last_states: "last (s # states as s) = run as s"
  by (induction as arbitrary: s) simp_all

subsection \<open>The two outcomes of \<^verbatim>\<open>processImage\<close>\<close>

lemma processImage_selected:
  "selectRegion src cs = (ls, Inr bestRect) \<Longrightarrow>
     processImage k src (Inr cs) =
       (map AddLog (StartingCV # ls @ [TargetLocked (width bestRect) (height bestRect)]
                      @ fst (orient (roi src bestRect)))
        @ [SetProcessedImage
             (Some (cv_resize k (snd (orient (roi src bestRect)))
                (TARGET_WIDTH CONFIG, TARGET_HEIGHT CONFIG))),
           SetStatus Success, AddLog ProcessingComplete], None)"
  by (simp add: processImage_def split: prod.splits)

lemma processImage_rejected:
  "selectRegion src cs = (ls, Inl e) \<Longrightarrow>
     processImage k src (Inr cs) = (map AddLog (StartingCV # ls), Some e)"
  by (simp add: processImage_def)

lemma processImage_thrown:
  "processImage k src (Inl e) = (map AddLog [StartingCV], Some e)"
  by (simp add: processImage_def)

lemma processImage_cases:
  "(\<exists>ls e. processImage k src found = (map AddLog ls, Some e))
   \<or> (\<exists>ls final. processImage k src found =
         (map AddLog ls
          @ [SetProcessedImage (Some final), SetStatus Success, AddLog ProcessingComplete], None)
        \<and> cols final = TARGET_WIDTH CONFIG \<and> rows final = TARGET_HEIGHT CONFIG)"
proof (cases found)
  case (Inl e)
  then have "processImage k src found = (map AddLog [StartingCV], Some e)"
    by (simp add: processImage_thrown)
  then show ?thesis by blast
next
  case (Inr cs)
  show ?thesis
  proof (cases "selectRegion src cs")
    case (Pair ls res)
    show ?thesis
    proof (cases res)
      case (Inl e)
      with Pair Inr have "processImage k src found = (map AddLog (StartingCV # ls), Some e)"
        by (simp add: processImage_rejected)
      then show ?thesis by blast
    next
      case (Inr bestRect)
      with Pair have "selectRegion src cs = (ls, Inr bestRect)" by simp
      from processImage_selected [OF this, of k] show ?thesis
        unfolding \<open>found = Inr cs\<close>
        by (intro disjI2 exI conjI) (assumption, simp_all add: cv_resize_def)
    qed
  qed
qed

subsection \<open>Filtering and selection\<close>

lemma pageRatioInWindow_iff:
  "pageRatioInWindow src \<longleftrightarrow>
     0 < rows src
     \<and> (2/5 :: rat) < of_nat (cols src) / of_nat (rows src)
     \<and> of_nat (cols src) / of_nat (rows src) < (5/2 :: rat)"
  by (auto simp: pageRatioInWindow_def js_gt_def)

lemma collectCandidates_bounds:
  "c \<in> set (collectCandidates totalArea cs) \<Longrightarrow>
     rect c \<in> set cs
     \<and> area c = width (rect c) * height (rect c)
     \<and> of_nat totalArea * MIN_AREA_RATIO CONFIG \<le> (of_nat (area c) :: rat)
     \<and> (of_nat (area c) :: rat) \<le> of_nat totalArea * MAX_AREA_RATIO CONFIG
     \<and> \<not> js_lt (js_div (width (rect c)) (height (rect c))) (Finite 0.2)
     \<and> \<not> js_gt (js_div (width (rect c)) (height (rect c))) (Finite 4.0)"
proof (induction cs)
  case Nil
  then show ?case by simp
next
  case (Cons r rs)
  then show ?case
    by (auto simp: Let_def not_less simp del: js_div.simps split: if_splits)
qed

lemma ratio_bounds_rat:
  assumes "\<not> js_lt (js_div w h) (Finite 0.2)" and "\<not> js_gt (js_div w h) (Finite 4.0)"
    and "0 < h"
  shows "(0.2 :: rat) \<le> of_nat w / of_nat h \<and> of_nat w / of_nat h \<le> (4.0 :: rat)"
  using assms by (simp add: js_gt_def not_less)

lemma insert_sorted_not_Nil: "insert_sorted f a bs \<noteq> []"
  by (cases bs) simp_all

lemma array_sort_Nil_iff: "array_sort f xs = [] \<longleftrightarrow> xs = []"
  by (cases xs) (simp_all add: insert_sorted_not_Nil)

lemma hd_insert_sorted:
  "hd (insert_sorted f a bs) = (if bs = [] \<or> f a (hd bs) \<le> 0 then a else hd bs)"
  by (cases bs) simp_all

text \<open>\<open>array_sort\<close> with the comparison of the source gives the same candidates,
  sorted by descending area, the candidates of one area in their order.\<close>

lemma set_insert_sorted: "set (insert_sorted f a bs) = insert a (set bs)"
  by (induction bs) auto

lemma set_array_sort: "set (array_sort f xs) = set xs"
  by (induction xs) (simp_all add: set_insert_sorted)

lemma length_insert_sorted: "length (insert_sorted f a bs) = Suc (length bs)"
  by (induction bs) simp_all

lemma length_array_sort: "length (array_sort f xs) = length xs"
  by (induction xs) (simp_all add: length_insert_sorted)

lemma sorted_insert_sorted:
  "sorted_wrt (\<lambda>a b. area b \<le> area a) bs \<Longrightarrow>
     sorted_wrt (\<lambda>a b. area b \<le> area a) (insert_sorted byAreaDescending a bs)"
proof (induction bs)
  case Nil
  then show ?case by simp
next
  case (Cons b bs)
  then show ?case
    by (auto simp: set_insert_sorted byAreaDescending_def intro: order_trans)
qed

lemma sorted_array_sort:
  "sorted_wrt (\<lambda>a b. area b \<le> area a) (array_sort byAreaDescending xs)"
  by (induction xs) (simp_all add: sorted_insert_sorted)

lemma filter_insert_sorted:
  "filter (\<lambda>c. area c = n) (insert_sorted byAreaDescending a bs)
     = filter (\<lambda>c. area c = n) (a # bs)"
  by (induction bs) (auto simp: byAreaDescending_def)

lemma array_sort_stable:
  "filter (\<lambda>c. area c = n) (array_sort byAreaDescending xs) = filter (\<lambda>c. area c = n) xs"
  by (induction xs) (simp_all add: filter_insert_sorted)

text \<open>The first element after sorting is the first of the elements of greatest area.\<close>

lemma hd_array_sort_first_greatest:
  "cands \<noteq> [] \<Longrightarrow>
     \<exists>i<length cands. hd (array_sort byAreaDescending cands) = cands ! i
        \<and> (\<forall>j<length cands. area (cands ! j) \<le> area (cands ! i))
        \<and> (\<forall>j<i. area (cands ! j) < area (cands ! i))"
proof (induction cands)
  case Nil
  then show ?case by simp
next
  case (Cons c cs)
  show ?case
  proof (cases "cs = []")
    case True
    then show ?thesis by simp
  next
    case False
    with Cons.IH obtain i where i: "i < length cs"
      and hd_i: "hd (array_sort byAreaDescending cs) = cs ! i"
      and greatest: "\<forall>j<length cs. area (cs ! j) \<le> area (cs ! i)"
      and first: "\<forall>j<i. area (cs ! j) < area (cs ! i)"
      by blast
    from False have sorted_ne: "array_sort byAreaDescending cs \<noteq> []"
      by (simp add: array_sort_Nil_iff)
    show ?thesis
    proof (cases "area (cs ! i) \<le> area c")
      case True
      then have "hd (array_sort byAreaDescending (c # cs)) = (c # cs) ! 0"
        using sorted_ne hd_i by (simp add: hd_insert_sorted byAreaDescending_def)
      moreover have "\<forall>j<length (c # cs). area ((c # cs) ! j) \<le> area ((c # cs) ! 0)"
      proof (intro allI impI)
        fix j assume "j < length (c # cs)"
        then show "area ((c # cs) ! j) \<le> area ((c # cs) ! 0)"
          using greatest True by (cases j) (auto intro: order_trans)
      qed
      ultimately show ?thesis by (intro exI [of _ 0]) simp
    next
      case False
      then have "hd (array_sort byAreaDescending (c # cs)) = (c # cs) ! Suc i"
        using sorted_ne hd_i by (simp add: hd_insert_sorted byAreaDescending_def)
      moreover have "\<forall>j<length (c # cs). area ((c # cs) ! j) \<le> area ((c # cs) ! Suc i)"
      proof (intro allI impI)
        fix j assume "j < length (c # cs)"
        then show "area ((c # cs) ! j) \<le> area ((c # cs) ! Suc i)"
          using greatest False by (cases j) auto
      qed
      moreover have "\<forall>j<Suc i. area ((c # cs) ! j) < area ((c # cs) ! Suc i)"
      proof (intro allI impI)
        fix j assume "j < Suc i"
        then show "area ((c # cs) ! j) < area ((c # cs) ! Suc i)"
          using first False by (cases j) auto
      qed
      ultimately show ?thesis using i by (intro exI [of _ "Suc i"]) simp
    qed
  qed
qed

lemma bestCandidate_hd:
  "cands \<noteq> [] \<Longrightarrow> bestCandidate cands = Inr (hd (array_sort byAreaDescending cands))"
  by (cases "array_sort byAreaDescending cands")
     (simp_all add: bestCandidate_def array_sort_Nil_iff)

lemma fallback_nonempty:
  "cands \<noteq> [] \<Longrightarrow> fallback src cands = ([], Inr cands)"
  by (simp add: fallback_def)

lemma selectRegion_nonempty:
  "collectCandidates (cols src * rows src) cs \<noteq> [] \<Longrightarrow>
     selectRegion src cs =
       ([FoundContours (length cs)],
        Inr (rect (hd (array_sort byAreaDescending
                         (collectCandidates (cols src * rows src) cs)))))"
  by (simp add: selectRegion_def fallback_nonempty bestCandidate_hd)

text \<open>The index \<^verbatim>\<open>candidates[0]\<close> is never out of range: the only error of the
  selection is the one thrown by the fallback.\<close>

lemma selectRegion_error:
  "snd (selectRegion src cs) = Inl e \<Longrightarrow> e = NoLabelDetected"
proof (cases "collectCandidates (cols src * rows src) cs = []")
  case True
  assume "snd (selectRegion src cs) = Inl e"
  with True show ?thesis
    by (simp add: selectRegion_def fallback_def bestCandidate_def split: if_splits)
next
  case False
  assume "snd (selectRegion src cs) = Inl e"
  with False show ?thesis
    by (simp add: selectRegion_nonempty)
qed

lemma selectRegion_empty:
  "collectCandidates (cols src * rows src) cs = [] \<Longrightarrow>
     selectRegion src cs =
       (if pageRatioInWindow src
        then ([FoundContours (length cs), NoContourFound, FallbackTriggered],
              Inr \<lparr>rect_x = 0, rect_y = 0, width = cols src, height = rows src\<rparr>)
        else ([FoundContours (length cs), NoContourFound], Inl NoLabelDetected))"
  by (simp add: selectRegion_def fallback_def bestCandidate_def)

subsection \<open>The example inputs, evaluated\<close>

lemma shape_roi: "cols (roi src r) = width r" "rows (roi src r) = height r"
  by (simp_all add: roi_def)

lemma shape_portraitLabel: "width portraitLabel = 1000" "height portraitLabel = 1500"
  by (simp_all add: portraitLabel_def)

lemma shape_landscapeLabel: "width landscapeLabel = 1500" "height landscapeLabel = 1000"
  by (simp_all add: landscapeLabel_def)

lemma selectRegion_portraitLabel:
  "selectRegion (blankPage 2400 3600) [portraitLabel] = ([FoundContours 1], Inr portraitLabel)"
  by (simp add: selectRegion_def fallback_def bestCandidate_def blankPage_def CONFIG_def
      js_gt_def portraitLabel_def)

lemma selectRegion_landscapeLabel:
  "selectRegion (blankPage 2400 3600) [landscapeLabel] = ([FoundContours 1], Inr landscapeLabel)"
  by (simp add: selectRegion_def fallback_def bestCandidate_def blankPage_def CONFIG_def
      js_gt_def landscapeLabel_def)

lemma selectRegion_fallback_page:
  "selectRegion (blankPage 1000 1400) []
     = ([FoundContours 0, NoContourFound, FallbackTriggered],
        Inr \<lparr>rect_x = 0, rect_y = 0, width = 1000, height = 1400\<rparr>)"
  by (simp add: selectRegion_def fallback_def bestCandidate_def blankPage_def
      pageRatioInWindow_def js_gt_def)

lemma selectRegion_banner_page:
  "selectRegion (blankPage 3000 500) [] = ([FoundContours 0, NoContourFound], Inl NoLabelDetected)"
  by (simp add: selectRegion_def fallback_def blankPage_def pageRatioInWindow_def js_gt_def)

lemma analyse_positive: "analyse (blankPage (Suc w) (Suc h)) found = found"
  "analyse (blankPage 2400 3600) found = found"
  by (simp_all add: analyse_def getImageData_def blankPage_def)

lemma handleFileUpload_labelUpload:
  "handleFileUpload constKernel labelUpload =
     reset
     @ [SetFile (Some \<lparr>file_name = ''label.png'', file_type = ''image/png''\<rparr>),
        SetStatus Processing, AddLog (ProcessingFile ''label.png''),
        AddLog DetectedImage, SetOriginalImage (Some (blankPage 2400 3600)),
        AddLog StartingCV, AddLog (FoundContours 1), AddLog (TargetLocked 1000 1500),
        SetProcessedImage
          (Some (cv_resize constKernel (roi (blankPage 2400 3600) portraitLabel) (1200, 1800))),
        SetStatus Success, AddLog ProcessingComplete]"
  by (simp add: handleFileUpload_def labelUpload_def tryUpload_def readFileAsDataURL_def
      analyse_positive processImage_selected [OF selectRegion_portraitLabel] orient_def
      shape_roi CONFIG_def shape_portraitLabel)

text \<open>The tasks of the example uploads, and the statuses seen in the example
  sequences of events.\<close>

lemma uploadTasks_labelUpload:
  "uploadTasks constKernel labelUpload =
     [reset
      @ [SetFile (Some \<lparr>file_name = ''label.png'', file_type = ''image/png''\<rparr>),
         SetStatus Processing, AddLog (ProcessingFile ''label.png''), AddLog DetectedImage],
      [SetOriginalImage (Some (blankPage 2400 3600))],
      [AddLog StartingCV, AddLog (FoundContours 1), AddLog (TargetLocked 1000 1500),
       SetProcessedImage
         (Some (cv_resize constKernel (roi (blankPage 2400 3600) portraitLabel) (1200, 1800))),
       SetStatus Success, AddLog ProcessingComplete]]"
  by (simp add: uploadTasks_def labelUpload_def imageTasks_def readFileAsDataURL_def
      analyse_positive processImage_selected [OF selectRegion_portraitLabel] orient_def
      shape_roi CONFIG_def shape_portraitLabel)

lemma uploadTasks_textUpload:
  "uploadTasks constKernel textUpload =
     [reset
      @ [SetFile (Some \<lparr>file_name = ''notes.txt'', file_type = ''text/plain''\<rparr>),
         SetStatus Processing, AddLog (ProcessingFile ''notes.txt''),
         SetStatus Error, AddLog (ErrorMsg (message UnsupportedFileType))]]"
  by (simp add: uploadTasks_def textUpload_def catchBlock_def)

lemma uploadTasks_failedUpload:
  "uploadTasks constKernel failedUpload =
     [reset
      @ [SetFile (Some \<lparr>file_name = ''gone.png'', file_type = ''image/png''\<rparr>),
         SetStatus Processing, AddLog (ProcessingFile ''gone.png''), AddLog DetectedImage],
      [SetStatus Error, AddLog (ErrorMsg ''not read'')]]"
  by (simp add: uploadTasks_def failedUpload_def catchBlock_def readFileAsDataURL_def)

lemmas page_simps = first_page_def libraryLoaded_def uploadTasks_labelUpload
  uploadTasks_textUpload uploadTasks_failedUpload reset_def rotateTasks_def
  initial_state_def outstanding_def

lemma labelEvents_turn: "in_turn constKernel labelEvents first_page"
  by (simp add: labelEvents_def page_simps)

lemma labelEvents_statuses:
  "remdups_adj (map status (initial_state # calls constKernel labelEvents first_page))
     = [Loading, Ready, Processing, Success, Processing, Success]"
  "map status (initial_state # renders constKernel labelEvents first_page)
     = [Loading, Loading, Ready, Processing, Processing, Success, Processing, Success]"
  by (simp_all add: labelEvents_def page_simps)

lemma retryEvents_turn: "in_turn constKernel retryEvents first_page"
  by (simp add: retryEvents_def page_simps)

lemma retryEvents_statuses:
  "remdups_adj (map status (initial_state # calls constKernel retryEvents first_page))
     = [Loading, Ready, Processing, Error, Ready, Processing, Success, Ready, Processing,
        Error]"
  "map status (initial_state # renders constKernel retryEvents first_page)
     = [Loading, Loading, Ready, Error, Processing, Processing, Success, Error]"
  by (simp_all add: retryEvents_def page_simps)

lemma raceEvents_statuses:
  "remdups_adj (map status (initial_state # calls constKernel raceEvents first_page))
     = [Loading, Ready, Processing, Success, Processing, Ready, Success]"
  "map status (initial_state # renders constKernel raceEvents first_page)
     = [Loading, Loading, Ready, Processing, Processing, Success, Processing, Ready, Success]"
  by (simp_all add: raceEvents_def page_simps)

lemma staleEvents_statuses:
  "remdups_adj (map status (initial_state # calls constKernel staleEvents first_page))
     = [Loading, Ready, Processing, Success, Processing, Ready, Processing, Error, Success,
        Processing, Ready, Processing, Success, Error, Processing, Ready, Error]"
  "map status (initial_state # renders constKernel staleEvents first_page)
     = [Loading, Loading, Ready, Processing, Processing, Success, Processing, Ready, Error,
        Success, Processing, Ready, Processing, Success, Error, Processing, Ready, Error]"
  by (simp_all add: staleEvents_def page_simps)

subsection \<open>Chains of transitions\<close>

lemma chain_Nil: "chain T s []"
  by (simp add: chain_def)

lemma chain_Cons:
  "chain T s (a # as) \<longleftrightarrow> T s (apply_action a s) \<and> chain T (apply_action a s) as"
  by (simp add: chain_def)

lemma chain_append: "chain T s (as @ bs) \<longleftrightarrow> chain T s as \<and> chain T (run as s) bs"
  by (induction as arbitrary: s) (simp_all add: chain_Nil chain_Cons)

lemma quiet_step:
  "quiet a \<Longrightarrow> status (apply_action a s) = status s
     \<and> processedImage (apply_action a s) = processedImage s
     \<and> librariesLoaded (apply_action a s) = librariesLoaded s"
  by (cases a) simp_all

lemma quiet_run:
  "\<forall>a \<in> set as. quiet a \<Longrightarrow>
     status (run as s) = status s
     \<and> processedImage (run as s) = processedImage s
     \<and> librariesLoaded (run as s) = librariesLoaded s"
proof (induction as arbitrary: s)
  case Nil
  then show ?case by simp
next
  case (Cons a as)
  then have "quiet a" and rest: "\<forall>a \<in> set as. quiet a" by simp_all
  from quiet_step [OF \<open>quiet a\<close>, of s] Cons.IH [OF rest, of "apply_action a s"]
  show ?case by simp
qed

text \<open>After its first lines \<^verbatim>\<open>handleFileUpload\<close> makes quiet calls only, and then
  stops (the image does not load), or ends in the \<^verbatim>\<open>catch\<close> block or with the last
  three calls of \<^verbatim>\<open>processImage\<close>.\<close>

lemma tryUpload_shape:
  "\<exists>q tail. (\<forall>a \<in> set q. quiet a) \<and>
     (case tryUpload k u f of
        (acts, None) \<Rightarrow> acts
      | (acts, Some err) \<Rightarrow> acts @ [SetStatus Error, AddLog (ErrorMsg (message err))]) = q @ tail
     \<and> (tail = []
        \<or> (\<exists>m. tail = [SetStatus Error, AddLog m])
        \<or> (\<exists>img. tail = [SetProcessedImage (Some img), SetStatus Success,
                           AddLog ProcessingComplete]
              \<and> cols img = TARGET_WIDTH CONFIG \<and> rows img = TARGET_HEIGHT CONFIG))"
proof -
  obtain acts imageSrc where pre:
    "(if file_type f = ''application/pdf'' then
        (let (ls, r) = convertPdfToImage (pdfDocument u)
         in (map AddLog (DetectedPdf # ls), r))
      else if prefix ''image/'' (file_type f) then
        ([AddLog DetectedImage], readFileAsDataURL (dataURL u))
      else ([], Inl UnsupportedFileType)) = (acts :: 'a action list, imageSrc)"
    by (metis surj_pair)
  then have quiet_acts: "\<forall>a \<in> set acts. quiet a"
    by (auto split: if_splits prod.splits)
  show ?thesis
  proof (cases imageSrc)
    case (Inl e)
    with pre have "tryUpload k u f = (acts, Some e)"
      by (simp add: tryUpload_def)
    with quiet_acts show ?thesis
      by (intro exI [of _ acts] exI [of _ "[SetStatus Error, AddLog (ErrorMsg (message e))]"])
         simp
  next
    case (Inr img)
    show ?thesis
    proof (cases "imageLoads u")
      case False
      with Inr pre have "tryUpload k u f = (acts @ [SetOriginalImage (Some img)], None)"
        by (simp add: tryUpload_def)
      with quiet_acts show ?thesis
        by (intro exI [of _ "acts @ [SetOriginalImage (Some img)]"] exI [of _ "[]"]) auto
    next
      case True
      with Inr pre have t: "tryUpload k u f =
        (let (acts', r) = processImage k img (analyse img (contours u))
         in (acts @ [SetOriginalImage (Some img)] @ acts', r))"
        by (simp add: tryUpload_def)
      from processImage_cases [of k img "analyse img (contours u)"] show ?thesis
      proof (elim disjE exE conjE)
        fix ls e
        assume "processImage k img (analyse img (contours u)) = (map AddLog ls, Some e)"
        with t have "tryUpload k u f
          = (acts @ [SetOriginalImage (Some img)] @ map AddLog ls, Some e)"
          by simp
        with quiet_acts show ?thesis
          by (intro exI [of _ "acts @ [SetOriginalImage (Some img)] @ map AddLog ls"]
              exI [of _ "[SetStatus Error, AddLog (ErrorMsg (message e))]"]) auto
      next
        fix ls final
        assume resolved: "processImage k img (analyse img (contours u)) =
              (map AddLog ls
               @ [SetProcessedImage (Some final), SetStatus Success, AddLog ProcessingComplete],
               None)"
        assume shape: "cols final = TARGET_WIDTH CONFIG" "rows final = TARGET_HEIGHT CONFIG"
        from resolved t have "tryUpload k u f
          = ((acts @ [SetOriginalImage (Some img)] @ map AddLog ls)
             @ [SetProcessedImage (Some final), SetStatus Success, AddLog ProcessingComplete],
             None)"
          by simp
        with quiet_acts shape show ?thesis
          by (intro exI [of _ "acts @ [SetOriginalImage (Some img)] @ map AddLog ls"]
              exI [of _ "[SetProcessedImage (Some final), SetStatus Success,
                          AddLog ProcessingComplete]"]) auto
      qed
    qed
  qed
qed

lemma handleFileUpload_shape:
  assumes "uploadedFile u = Some f"
  shows "\<exists>q tail.
           handleFileUpload k u
             = (reset @ [SetFile (Some f), SetStatus Processing,
                         AddLog (ProcessingFile (file_name f))]) @ q @ tail
         \<and> (\<forall>a \<in> set q. quiet a)
         \<and> (tail = []
            \<or> (\<exists>m. tail = [SetStatus Error, AddLog m])
            \<or> (\<exists>img. tail = [SetProcessedImage (Some img), SetStatus Success,
                               AddLog ProcessingComplete]
                  \<and> cols img = TARGET_WIDTH CONFIG \<and> rows img = TARGET_HEIGHT CONFIG))"
proof -
  from tryUpload_shape [of k u f] obtain q tail where
    q: "\<forall>a \<in> set q. quiet a"
    and shape: "(case tryUpload k u f of
        (acts, None) \<Rightarrow> acts
      | (acts, Some err) \<Rightarrow> acts @ [SetStatus Error, AddLog (ErrorMsg (message err))]) = q @ tail"
    and tail: "tail = []
        \<or> (\<exists>m. tail = [SetStatus Error, AddLog m])
        \<or> (\<exists>img. tail = [SetProcessedImage (Some img), SetStatus Success,
                           AddLog ProcessingComplete]
              \<and> cols img = TARGET_WIDTH CONFIG \<and> rows img = TARGET_HEIGHT CONFIG)"
    by blast
  have "handleFileUpload k u
      = (reset @ [SetFile (Some f), SetStatus Processing,
                  AddLog (ProcessingFile (file_name f))]) @ q @ tail"
    using assms shape by (simp add: handleFileUpload_def)
  with q tail show ?thesis by blast
qed

text \<open>An upload stays in \<^verbatim>\<open>processing\<close> or ends in \<^verbatim>\<open>error\<close>, without a processed
  image, or ends in \<^verbatim>\<open>success\<close> with a processed image of the target size.\<close>

lemma handleFileUpload_outcome:
  fixes s :: "'a app_state"
  assumes "uploadedFile u = Some f"
  shows "(status (run (handleFileUpload k u) s) = Processing
          \<and> processedImage (run (handleFileUpload k u) s) = None)
       \<or> (status (run (handleFileUpload k u) s) = Error
          \<and> processedImage (run (handleFileUpload k u) s) = None)
       \<or> (status (run (handleFileUpload k u) s) = Success
          \<and> (\<exists>final. processedImage (run (handleFileUpload k u) s) = Some final
                \<and> cols final = TARGET_WIDTH CONFIG \<and> rows final = TARGET_HEIGHT CONFIG))"
proof -
  define pre :: "'a action list" where
    "pre = reset @ [SetFile (Some f), SetStatus Processing,
                    AddLog (ProcessingFile (file_name f))]"
  from handleFileUpload_shape [OF assms, of k] obtain q tail where
    hfu: "handleFileUpload k u = pre @ q @ tail"
    and q: "\<forall>a \<in> set q. quiet a"
    and tail: "tail = []
        \<or> (\<exists>m. tail = [SetStatus Error, AddLog m])
        \<or> (\<exists>img. tail = [SetProcessedImage (Some img), SetStatus Success,
                           AddLog ProcessingComplete]
              \<and> cols img = TARGET_WIDTH CONFIG \<and> rows img = TARGET_HEIGHT CONFIG)"
    unfolding pre_def by blast
  define s1 where "s1 = run pre s"
  have "processedImage s1 = None" "status s1 = Processing"
    by (simp_all add: s1_def pre_def reset_def)
  with quiet_run [OF q, of s1]
  have "processedImage (run q s1) = None" "status (run q s1) = Processing" by simp_all
  with tail show ?thesis
    unfolding hfu by (auto simp: run_append s1_def)
qed

lemma image_type_not_pdf: "prefix ''image/'' t \<Longrightarrow> t \<noteq> ''application/pdf''"
  by auto

lemma successively_join:
  "successively P (s # xs) \<Longrightarrow> successively P (last (s # xs) # ys)
     \<Longrightarrow> successively P (s # xs @ ys)"
  by (induction xs arbitrary: s) simp_all

subsection \<open>Handlers and their tasks\<close>

text \<open>The tasks of a handler, one after the other, are the handler.\<close>

lemma rotateTasks_concat: "concat (rotateTasks dir s) = handleRotate dir s"
  by (simp add: rotateTasks_def handleRotate_def Let_def split: option.splits)

lemma uploadTasks_concat: "concat (uploadTasks k u) = handleFileUpload k u"
  by (auto simp: uploadTasks_def handleFileUpload_def tryUpload_def imageTasks_def
      catchBlock_def convertPdfToImage_def readFileAsDataURL_def Let_def
      split: option.splits sum.splits prod.splits)

lemma later_task_quiet:
  "\<forall>a \<in> set q. quiet a \<Longrightarrow> later_task t \<Longrightarrow> later_task (q @ t)"
  by (induction q) (simp_all add: later_task.Quiet)

lemma ending_later_task: "ending t \<Longrightarrow> later_task t"
  unfolding ending_def
proof (elim exE conjE disjE)
  fix q assume "\<forall>a \<in> set q. quiet a" "t = q"
  with later_task_quiet [of q "[]"] show ?thesis by (simp add: later_task.Done)
next
  fix q m assume "\<forall>a \<in> set q. quiet a" "t = q @ [SetStatus Error, AddLog m]"
  with later_task_quiet [of q "[SetStatus Error, AddLog m]"] show ?thesis
    by (simp add: later_task.intros)
next
  fix q img m
  assume "\<forall>a \<in> set q. quiet a"
    "t = q @ [SetProcessedImage (Some img), SetStatus Success, AddLog m]"
  with later_task_quiet [of q "[SetProcessedImage (Some img), SetStatus Success, AddLog m]"]
  show ?thesis
    by (simp add: later_task.intros)
qed

lemma quiet_ending: "\<forall>a \<in> set t. quiet a \<Longrightarrow> ending t"
  unfolding ending_def by blast

lemma closing_later_task: "closing ts \<Longrightarrow> \<forall>t \<in> set ts. later_task t"
  by (induction ts rule: closing.induct) (auto intro: ending_later_task quiet_ending)

lemma processImage_ending:
  "ending (let (acts, r) = processImage k img found
           in acts @ (case r of None \<Rightarrow> [] | Some err \<Rightarrow> catchBlock err))"
  using processImage_cases [of k img found]
proof (elim disjE exE conjE)
  fix ls e
  assume "processImage k img found = (map AddLog ls, Some e)"
  then show ?thesis
    unfolding ending_def
    by (intro exI [of _ "map AddLog ls"]) (auto simp: catchBlock_def)
next
  fix ls final
  assume "processImage k img found =
            (map AddLog ls
             @ [SetProcessedImage (Some final), SetStatus Success, AddLog ProcessingComplete],
             None)"
  then show ?thesis
    unfolding ending_def
    by (intro exI [of _ "map AddLog ls"]) auto
qed

lemma catchBlock_ending: "ending (catchBlock e)"
  unfolding ending_def catchBlock_def by (intro exI [of _ "[]"]) simp

lemma imageTasks_closing: "closing (imageTasks k u img)"
  using processImage_ending [of k img "analyse img (contours u)"]
  by (simp add: imageTasks_def quiet_ending)

text \<open>The first task of an upload ends with a log line or in the \<^verbatim>\<open>catch\<close> block,
  and then nothing is left to run.\<close>

lemma uploadTasks_shape:
  assumes "uploadedFile u = Some f"
  shows "\<exists>q rest.
           uploadTasks k u
             = (reset @ [SetFile (Some f), SetStatus Processing,
                         AddLog (ProcessingFile (file_name f))] @ q) # rest
         \<and> ((\<exists>m. q = [AddLog m]) \<or> (\<exists>m. q = [SetStatus Error, AddLog m] \<and> rest = []))
         \<and> closing rest"
proof -
  consider (pdf) "file_type f = ''application/pdf''"
    | (image) "file_type f \<noteq> ''application/pdf''" "prefix ''image/'' (file_type f)"
    | (other) "file_type f \<noteq> ''application/pdf''" "\<not> prefix ''image/'' (file_type f)"
    by blast
  then show ?thesis
  proof cases
    case pdf
    have "closing (case pdfDocument u of
                     Inl e \<Rightarrow> [catchBlock e]
                   | Inr (numPages, rendered) \<Rightarrow>
                       [AddLog (PdfLoaded numPages)]
                       # (case rendered of
                            Inl e \<Rightarrow> [catchBlock e]
                          | Inr img \<Rightarrow> imageTasks k u img))"
      using imageTasks_closing [of k u]
      by (auto simp: catchBlock_ending imageTasks_def split: sum.splits)
    with assms pdf show ?thesis
      by (simp add: uploadTasks_def)
  next
    case image
    have "closing (case readFileAsDataURL (dataURL u) of
                     Inl e \<Rightarrow> [catchBlock e]
                   | Inr img \<Rightarrow> imageTasks k u img)"
      using imageTasks_closing [of k u]
      by (auto simp: catchBlock_ending split: sum.splits)
    with assms image show ?thesis
      by (simp add: uploadTasks_def)
  next
    case other
    with assms show ?thesis
      by (simp add: uploadTasks_def catchBlock_def)
  qed
qed

subsection \<open>Every order of the events\<close>

lemma later_task_run:
  "later_task t \<Longrightarrow> status s \<noteq> Loading \<Longrightarrow>
     chain transition s t
     \<and> status (run t s) \<noteq> Loading
     \<and> librariesLoaded (run t s) = librariesLoaded s
     \<and> ((status (run t s) = status s \<and> processedImage (run t s) = processedImage s)
        \<or> status (run t s) = Error
        \<or> ((status (run t s) = Success \<or> status (run t s) = Processing)
            \<and> processedImage (run t s) \<noteq> None))"
proof (induction t arbitrary: s rule: later_task.induct)
  case Done
  then show ?case by (simp add: chain_Nil)
next
  case (Quiet a as)
  from quiet_step [OF Quiet.hyps(1), of s] Quiet.prems
  have same: "status (apply_action a s) = status s"
    "processedImage (apply_action a s) = processedImage s"
    "librariesLoaded (apply_action a s) = librariesLoaded s"
    and "status (apply_action a s) \<noteq> Loading"
    by simp_all
  from Quiet.IH [OF this(4)] same show ?case
    by (simp add: chain_Cons transition_def)
next
  case (Caught as)
  have "status (apply_action (SetStatus Error) s) \<noteq> Loading" by simp
  from Caught.IH [OF this] Caught.prems show ?case
    by (auto simp: chain_Cons transition_def)
next
  case (Stored v as img)
  define s2 where
    "s2 = apply_action (SetStatus v) (apply_action (SetProcessedImage (Some img)) s)"
  have s2: "status s2 = v" "processedImage s2 = Some img"
    "librariesLoaded s2 = librariesLoaded s"
    by (simp_all add: s2_def)
  with Stored.hyps(1) have "status s2 \<noteq> Loading" by auto
  from Stored.IH [OF this]
  have IH: "chain transition s2 as"
    "status (run as s2) \<noteq> Loading"
    "librariesLoaded (run as s2) = librariesLoaded s2"
    "(status (run as s2) = status s2 \<and> processedImage (run as s2) = processedImage s2)
        \<or> status (run as s2) = Error
        \<or> ((status (run as s2) = Success \<or> status (run as s2) = Processing)
            \<and> processedImage (run as s2) \<noteq> None)"
    by blast+
  have first: "transition s (apply_action (SetProcessedImage (Some img)) s)"
    by (simp add: transition_def)
  have second: "transition (apply_action (SetProcessedImage (Some img)) s) s2"
    using Stored.hyps(1) Stored.prems by (auto simp: transition_def s2_def)
  have run: "run (SetProcessedImage (Some img) # SetStatus v # as) s = run as s2"
    by (simp add: s2_def)
  have "chain transition s (SetProcessedImage (Some img) # SetStatus v # as)"
    using first second IH(1) by (simp add: chain_Cons s2_def)
  moreover from IH(4) s2 Stored.hyps(1)
  have "(status (run as s2) = status s \<and> processedImage (run as s2) = processedImage s)
        \<or> status (run as s2) = Error
        \<or> ((status (run as s2) = Success \<or> status (run as s2) = Processing)
            \<and> processedImage (run as s2) \<noteq> None)"
    by auto
  ultimately show ?case
    unfolding run using IH(2,3) s2(3) by simp
qed

text \<open>What a task run by a callback does to a sound state.\<close>

lemma later_task_transition:
  assumes "later_task t" and "status s \<noteq> Loading"
    and "processedImage s \<noteq> None \<longrightarrow> status s \<noteq> Ready"
  shows "transition s (run t s)"
    and "processedImage (run t s) \<noteq> None \<longrightarrow> status (run t s) \<noteq> Ready"
  using later_task_run [OF assms(1,2)] assms(2,3)
  by (auto simp: transition_def)

lemma fire_app: "app (snd (fire k e p)) = run (fst (fire k e p)) (app p)"
  by (cases e) (simp_all split: list.splits)

lemma set_outstanding: "set (outstanding hs) \<subseteq> set hs"
  by (auto simp: outstanding_def)

lemma outstanding_Nil: "outstanding [] = []" "outstanding [[]] = []"
  "ts \<noteq> [] \<Longrightarrow> outstanding [ts] = [ts]"
  by (simp_all add: outstanding_def)

lemma reset_chain:
  "status s \<noteq> Loading \<Longrightarrow> chain transition s reset"
  by (simp add: reset_def chain_Cons chain_Nil transition_def)

lemma reset_state:
  "status (run reset s) = Ready" "file' (run reset s) = None"
  "originalImage (run reset s) = None" "processedImage (run reset s) = None"
  "librariesLoaded (run reset s) = librariesLoaded s"
  by (simp_all add: reset_def)

text \<open>The first task of an input that the page lets through.\<close>

lemma input_sound:
  assumes "sound_page p" and "enabled i (app p)" and "tasks k i (app p) = t # ts"
  shows "chain transition (app p) t \<and> transition (app p) (run t (app p))
       \<and> (status (run t (app p)) = Loading \<longrightarrow>
            pending p = [] \<and> ts = [] \<and> processedImage (run t (app p)) = None)
       \<and> (status (run t (app p)) \<noteq> Loading \<longrightarrow>
            cv (librariesLoaded (run t (app p))) \<and> pdf (librariesLoaded (run t (app p))))
       \<and> (processedImage (run t (app p)) \<noteq> None \<longrightarrow> status (run t (app p)) \<noteq> Ready)
       \<and> (\<forall>t' \<in> set ts. later_task t')"
proof (cases i)
  case (LibraryLoaded lib)
  with assms(1,2) have loading: "status (app p) = Loading"
    by (cases lib) (auto simp: sound_page_def)
  with assms(1) have "pending p = []" "processedImage (app p) = None"
    by (simp_all add: sound_page_def)
  with LibraryLoaded assms(2,3) loading show ?thesis
    by (cases lib; cases "cv (librariesLoaded (app p))"; cases "pdf (librariesLoaded (app p))")
       (auto simp: libraryLoaded_def chain_Cons chain_Nil transition_def)
next
  case ClickReset
  with assms(1,2) have "status (app p) \<noteq> Loading"
    by (auto simp: sound_page_def)
  moreover from this assms(1)
  have "cv (librariesLoaded (app p)) \<and> pdf (librariesLoaded (app p))"
    by (simp add: sound_page_def)
  moreover from ClickReset assms(3) have "t = reset" "ts = []" by simp_all
  ultimately show ?thesis
    by (simp add: reset_chain reset_state transition_def)
next
  case (FileSelected u)
  with assms(2) have started: "status (app p) \<noteq> Loading" by simp
  with assms(1) have libs: "cv (librariesLoaded (app p)) \<and> pdf (librariesLoaded (app p))"
    by (simp add: sound_page_def)
  from FileSelected assms(3) have tasks: "uploadTasks k u = t # ts" by simp
  then obtain f where f: "uploadedFile u = Some f"
    by (cases "uploadedFile u") (simp_all add: uploadTasks_def)
  define start :: "'a action list" where
    "start = [SetFile (Some f), SetStatus Processing, AddLog (ProcessingFile (file_name f))]"
  from uploadTasks_shape [OF f, of k] tasks obtain q where
    t: "t = reset @ start @ q"
    and q: "(\<exists>m. q = [AddLog m]) \<or> (\<exists>m. q = [SetStatus Error, AddLog m] \<and> ts = [])"
    and ts: "closing ts"
    unfolding start_def by auto
  define s1 where "s1 = run reset (app p)"
  have s1: "status s1 = Ready" "file' s1 = None" "originalImage s1 = None"
    "processedImage s1 = None" "librariesLoaded s1 = librariesLoaded (app p)"
    by (simp_all add: s1_def reset_state)
  define s2 where "s2 = run start s1"
  have s2: "status s2 = Processing" "file' s2 = Some f" "originalImage s2 = None"
    "processedImage s2 = None" "librariesLoaded s2 = librariesLoaded (app p)"
    by (simp_all add: s2_def start_def s1)
  have "chain transition s1 start"
    by (simp add: start_def chain_Cons chain_Nil transition_def s1)
  moreover from q s2 have "chain transition s2 q"
    by (auto simp: chain_Cons chain_Nil transition_def)
  ultimately have chain: "chain transition (app p) t"
    unfolding t using reset_chain [OF started]
    by (simp only: chain_append s1_def s2_def)
  have run: "run t (app p) = run q s2"
    unfolding t by (simp only: run_append s1_def s2_def)
  from q s2 started have outcome:
    "transition (app p) (run q s2)" "status (run q s2) \<noteq> Loading"
    "status (run q s2) \<noteq> Ready"
    "librariesLoaded (run q s2) = librariesLoaded (app p)"
    by (auto simp: transition_def)
  from chain outcome libs closing_later_task [OF ts] show ?thesis
    unfolding run by simp
next
  case (ClickRotate dir)
  with assms(2) obtain img where img: "processedImage (app p) = Some img" by auto
  with assms(1) have status: "status (app p) \<noteq> Loading" "status (app p) \<noteq> Ready"
    and libs: "cv (librariesLoaded (app p)) \<and> pdf (librariesLoaded (app p))"
    by (auto simp: sound_page_def)
  then have old: "status (app p) = Success \<or> status (app p) = Processing
      \<or> status (app p) = Error"
    by (cases "status (app p)") simp_all
  from ClickRotate assms(3) img have
    t: "t = [SetStatus Processing]"
    and ts: "ts = [[SetProcessedImage
                     (Some (cv_rotate img (if dir = Left then ROTATE_90_COUNTERCLOCKWISE
                                           else ROTATE_90_CLOCKWISE))),
                    SetStatus (status (app p))]]"
    by (simp_all add: rotateTasks_def Let_def)
  from old have "\<forall>t' \<in> set ts. later_task t'"
    unfolding ts by (simp add: later_task.Stored later_task.Done)
  with img status libs show ?thesis
    unfolding t by (simp add: chain_Cons chain_Nil transition_def)
qed

text \<open>Every event keeps the page sound, and every setter call and every task it runs
  makes a transition.\<close>

lemma fire_sound:
  assumes "sound_page p"
  shows "chain transition (app p) (fst (fire k e p))
       \<and> transition (app p) (app (snd (fire k e p)))
       \<and> sound_page (snd (fire k e p))"
proof -
  have idle: "chain transition (app p) [] \<and> transition (app p) (app p) \<and> sound_page p"
    using assms by (simp add: chain_Nil transition_def)
  show ?thesis
  proof (cases e)
    case (Input i)
    show ?thesis
    proof (cases "enabled i (app p)")
      case False
      with Input idle show ?thesis by simp
    next
      case True
      show ?thesis
      proof (cases "tasks k i (app p)")
        case Nil
        with Input True idle show ?thesis by simp
      next
        case (Cons t ts)
        have fire: "fire k e p
          = (t, \<lparr>app = run t (app p), pending = outstanding (pending p @ [ts])\<rparr>)"
          using Input True Cons by simp
        from input_sound [OF assms True Cons] have
          step: "chain transition (app p) t" "transition (app p) (run t (app p))"
          and loading: "status (run t (app p)) = Loading \<longrightarrow>
            pending p = [] \<and> ts = [] \<and> processedImage (run t (app p)) = None"
          and libs: "status (run t (app p)) \<noteq> Loading \<longrightarrow>
            cv (librariesLoaded (run t (app p))) \<and> pdf (librariesLoaded (run t (app p)))"
          and image: "processedImage (run t (app p)) \<noteq> None \<longrightarrow> status (run t (app p)) \<noteq> Ready"
          and later: "\<forall>t' \<in> set ts. later_task t'"
          by blast+
        from assms have "\<forall>ts' \<in> set (pending p). \<forall>t' \<in> set ts'. later_task t'"
          by (simp add: sound_page_def)
        with later set_outstanding [of "pending p @ [ts]"]
        have "\<forall>ts' \<in> set (outstanding (pending p @ [ts])). \<forall>t' \<in> set ts'. later_task t'"
          by auto
        with loading libs image have "sound_page (snd (fire k e p))"
          unfolding fire by (auto simp: sound_page_def outstanding_Nil)
        with step show ?thesis
          unfolding fire by simp
      qed
    qed
  next
    case (Callback n)
    show ?thesis
    proof (cases "n < length (pending p)")
      case False
      with Callback idle show ?thesis by simp
    next
      case True
      show ?thesis
      proof (cases "pending p ! n")
        case Nil
        with Callback True idle show ?thesis by simp
      next
        case (Cons t ts)
        have fire: "fire k e p
          = (t, \<lparr>app = run t (app p), pending = outstanding ((pending p)[n := ts])\<rparr>)"
          using Callback True Cons by simp
        from True have member: "pending p ! n \<in> set (pending p)" by simp
        with assms Cons have t: "later_task t" and ts: "\<forall>t' \<in> set ts. later_task t'"
          by (auto simp: sound_page_def)
        from member assms have started: "status (app p) \<noteq> Loading"
          and image: "processedImage (app p) \<noteq> None \<longrightarrow> status (app p) \<noteq> Ready"
          and libs: "cv (librariesLoaded (app p)) \<and> pdf (librariesLoaded (app p))"
          by (auto simp: sound_page_def)
        from assms have old: "\<forall>ts' \<in> set (pending p). \<forall>t' \<in> set ts'. later_task t'"
          by (simp add: sound_page_def)
        have "set ((pending p)[n := ts]) \<subseteq> insert ts (set (pending p))"
          by (rule set_update_subset_insert)
        with old ts set_outstanding [of "(pending p)[n := ts]"]
        have later: "\<forall>ts' \<in> set (outstanding ((pending p)[n := ts])).
            \<forall>t' \<in> set ts'. later_task t'"
          by blast
        from later_task_run [OF t started] libs
        have "status (run t (app p)) \<noteq> Loading"
          "cv (librariesLoaded (run t (app p))) \<and> pdf (librariesLoaded (run t (app p)))"
          "chain transition (app p) t"
          by simp_all
        with later later_task_transition [OF t started image]
        show ?thesis
          unfolding fire by (simp add: sound_page_def)
      qed
    qed
  qed
qed

lemma first_page_sound: "sound_page first_page"
  by (simp add: sound_page_def first_page_def initial_state_def)

lemma calls_chain:
  "sound_page p \<Longrightarrow> successively transition (app p # calls k es p)"
proof (induction es arbitrary: p)
  case Nil
  then show ?case by simp
next
  case (Cons e es)
  from fire_sound [OF Cons.prems, of k e] have
    c: "successively transition (app p # states (fst (fire k e p)) (app p))"
    and s: "sound_page (snd (fire k e p))"
    by (simp_all add: chain_def)
  from Cons.IH [OF s] have
    "successively transition
       (last (app p # states (fst (fire k e p)) (app p)) # calls k es (snd (fire k e p)))"
    by (simp only: last_states fire_app)
  with c show ?case
    by (simp only: calls.simps successively_join)
qed

lemma renders_chain:
  "sound_page p \<Longrightarrow> successively transition (app p # renders k es p)"
proof (induction es arbitrary: p)
  case Nil
  then show ?case by simp
next
  case (Cons e es)
  from fire_sound [OF Cons.prems, of k e] Cons.IH [of "snd (fire k e p)"]
  show ?case by simp
qed

subsection \<open>Inputs that come in turn\<close>

lemma quiet_chain:
  assumes "\<And>s s'. status s' = status s \<Longrightarrow> T s s'"
  shows "\<forall>a \<in> set q. quiet a \<Longrightarrow> chain T s q"
proof (induction q arbitrary: s)
  case Nil
  then show ?case by (simp add: chain_Nil)
next
  case (Cons a q)
  then have "quiet a" by simp
  from quiet_step [OF this, of s] have "T s (apply_action a s)" by (simp add: assms)
  with Cons show ?case by (simp add: chain_Cons)
qed

lemma quiet_turn_chain: "\<forall>a \<in> set q. quiet a \<Longrightarrow> chain transition_in_turn s q"
  by (rule quiet_chain) (simp_all add: transition_in_turn_def)

lemma reset_turn_chain:
  "status s = Ready \<or> status s = Success \<or> status s = Error \<Longrightarrow>
     chain transition_in_turn s reset"
  by (auto simp: reset_def chain_Cons chain_Nil transition_in_turn_def)

text \<open>The last task of an upload, run while nothing else is pending.\<close>

lemma ending_run:
  assumes "ending t" and "status s = Processing" and "processedImage s = None"
  shows "chain transition_in_turn s t
       \<and> librariesLoaded (run t s) = librariesLoaded s
       \<and> ((status (run t s) = Processing \<and> processedImage (run t s) = None)
          \<or> (status (run t s) = Error \<and> processedImage (run t s) = None)
          \<or> (status (run t s) = Success \<and> processedImage (run t s) \<noteq> None))"
proof -
  from assms(1) obtain q tail where t: "t = q @ tail" and q: "\<forall>a \<in> set q. quiet a"
    and tail: "tail = [] \<or> (\<exists>m. tail = [SetStatus Error, AddLog m])
      \<or> (\<exists>img m. tail = [SetProcessedImage (Some img), SetStatus Success, AddLog m])"
    unfolding ending_def by auto
  from quiet_run [OF q, of s] assms(2,3) have
    mid: "status (run q s) = Processing" "processedImage (run q s) = None"
      "librariesLoaded (run q s) = librariesLoaded s"
    by simp_all
  from tail mid have "chain transition_in_turn (run q s) tail
       \<and> librariesLoaded (run tail (run q s)) = librariesLoaded s
       \<and> ((status (run tail (run q s)) = Processing \<and> processedImage (run tail (run q s)) = None)
          \<or> (status (run tail (run q s)) = Error \<and> processedImage (run tail (run q s)) = None)
          \<or> (status (run tail (run q s)) = Success
              \<and> processedImage (run tail (run q s)) \<noteq> None))"
    by (auto simp: chain_Cons chain_Nil transition_in_turn_def)
  with quiet_turn_chain [OF q, of s] show ?thesis
    unfolding t by (simp only: chain_append run_append)
qed

text \<open>The first task of an input that comes while nothing is pending.\<close>

lemma turn_input:
  assumes "turn_page p" and "pending p = []" and "enabled i (app p)"
    and "tasks k i (app p) = t # ts"
  shows "chain transition_in_turn (app p) t
       \<and> render_in_turn (app p) (run t (app p))
       \<and> turn_page \<lparr>app = run t (app p), pending = outstanding (pending p @ [ts])\<rparr>"
proof -
  from assms(1,2) have
    libs: "status (app p) \<noteq> Loading \<longrightarrow>
      cv (librariesLoaded (app p)) \<and> pdf (librariesLoaded (app p))"
    and rest: "processedImage (app p) \<noteq> None \<longleftrightarrow> status (app p) = Success"
    by (auto simp: turn_page_def)
  show ?thesis
  proof (cases i)
    case (LibraryLoaded lib)
    with assms(3) libs have loading: "status (app p) = Loading"
      by (cases lib) auto
    with rest have image: "processedImage (app p) = None" by auto
    from LibraryLoaded assms(4) have t: "t = libraryLoaded lib (app p)" and ts: "ts = []"
      by simp_all
    from LibraryLoaded assms(2,3) loading image show ?thesis
      unfolding t ts
      by (cases lib; cases "cv (librariesLoaded (app p))"; cases "pdf (librariesLoaded (app p))")
         (simp_all add: libraryLoaded_def chain_Cons chain_Nil transition_in_turn_def
            render_in_turn_def turn_page_def outstanding_Nil)
  next
    case ClickReset
    with assms(3) rest have status: "status (app p) = Success \<or> status (app p) = Error"
      by auto
    with libs have libs': "cv (librariesLoaded (app p)) \<and> pdf (librariesLoaded (app p))"
      by auto
    from ClickReset assms(4) have t: "t = reset" and ts: "ts = []" by simp_all
    from status have "chain transition_in_turn (app p) reset"
      by (intro reset_turn_chain) simp
    moreover from status have "render_in_turn (app p) (run reset (app p))"
      by (simp add: render_in_turn_def reset_state)
    moreover from libs' assms(2)
    have "turn_page \<lparr>app = run reset (app p), pending = outstanding (pending p @ [[]])\<rparr>"
      by (simp add: turn_page_def reset_state outstanding_Nil)
    ultimately show ?thesis
      unfolding t ts by simp
  next
    case (FileSelected u)
    with assms(3) have status:
      "status (app p) = Ready \<or> status (app p) = Success \<or> status (app p) = Error"
      by (cases "status (app p)") simp_all
    with libs have libs': "cv (librariesLoaded (app p)) \<and> pdf (librariesLoaded (app p))"
      by auto
    from FileSelected assms(4) have tasks: "uploadTasks k u = t # ts" by simp
    then obtain f where f: "uploadedFile u = Some f"
      by (cases "uploadedFile u") (simp_all add: uploadTasks_def)
    define start :: "'a action list" where
      "start = [SetFile (Some f), SetStatus Processing, AddLog (ProcessingFile (file_name f))]"
    from uploadTasks_shape [OF f, of k] tasks obtain q where
      t: "t = reset @ start @ q"
      and q: "(\<exists>m. q = [AddLog m]) \<or> (\<exists>m. q = [SetStatus Error, AddLog m] \<and> ts = [])"
      and ts: "closing ts"
      unfolding start_def by auto
    define s1 where "s1 = run reset (app p)"
    have s1: "status s1 = Ready" "processedImage s1 = None" "originalImage s1 = None"
      "librariesLoaded s1 = librariesLoaded (app p)"
      by (simp_all add: s1_def reset_state)
    define s2 where "s2 = run start s1"
    have s2: "status s2 = Processing" "processedImage s2 = None" "originalImage s2 = None"
      "file' s2 = Some f" "librariesLoaded s2 = librariesLoaded (app p)"
      by (simp_all add: s2_def start_def s1)
    have "chain transition_in_turn s1 start"
      by (simp add: start_def chain_Cons chain_Nil transition_in_turn_def s1)
    moreover from q s2 have "chain transition_in_turn s2 q"
      by (auto simp: chain_Cons chain_Nil transition_in_turn_def)
    ultimately have chain: "chain transition_in_turn (app p) t"
      unfolding t using reset_turn_chain [OF status]
      by (simp only: chain_append s1_def s2_def)
    have run: "run t (app p) = run q s2"
      unfolding t by (simp only: run_append s1_def s2_def)
    from q s2 have after:
      "status (run q s2) = Processing \<or> status (run q s2) = Error \<and> ts = []"
      "processedImage (run q s2) = None" "originalImage (run q s2) = None"
      "file' (run q s2) = Some f" "librariesLoaded (run q s2) = librariesLoaded (app p)"
      by auto
    from after libs' ts assms(2)
    have "turn_page \<lparr>app = run q s2, pending = outstanding (pending p @ [ts])\<rparr>"
      by (cases "ts = []") (auto simp: turn_page_def outstanding_Nil)
    moreover from after(1) status have "render_in_turn (app p) (run q s2)"
      unfolding render_in_turn_def after(2,3,4) by blast
    ultimately show ?thesis
      using chain unfolding run by simp
  next
    case (ClickRotate dir)
    with assms(3) obtain img where img: "processedImage (app p) = Some img" by auto
    with rest have status: "status (app p) = Success" by simp
    with libs have libs': "cv (librariesLoaded (app p)) \<and> pdf (librariesLoaded (app p))"
      by simp
    from ClickRotate assms(4) img status have
      t: "t = [SetStatus Processing]"
      and ts: "ts = [[SetProcessedImage
                       (Some (cv_rotate img (if dir = Left then ROTATE_90_COUNTERCLOCKWISE
                                             else ROTATE_90_CLOCKWISE))),
                      SetStatus Success]]"
      by (simp_all add: rotateTasks_def Let_def)
    from img status libs' assms(2) show ?thesis
      unfolding t ts
      by (simp add: chain_Cons chain_Nil transition_in_turn_def render_in_turn_def
          turn_page_def outstanding_Nil)
  qed
qed

text \<open>The next task of the one pending handler.\<close>

lemma turn_callback:
  assumes "turn_page p" and "n < length (pending p)" and "pending p ! n = t # ts"
  shows "chain transition_in_turn (app p) t
       \<and> render_in_turn (app p) (run t (app p))
       \<and> turn_page \<lparr>app = run t (app p), pending = outstanding ((pending p)[n := ts])\<rparr>"
proof -
  from assms(2) have "pending p \<noteq> []" by auto
  with assms(1) have status: "status (app p) = Processing"
    and libs: "cv (librariesLoaded (app p)) \<and> pdf (librariesLoaded (app p))"
    and handler:
      "(processedImage (app p) = None
          \<and> (\<exists>ts. pending p = [ts] \<and> ts \<noteq> [] \<and> closing ts))
       \<or> (processedImage (app p) \<noteq> None
          \<and> (\<exists>img. pending p = [[[SetProcessedImage (Some img), SetStatus Success]]]))"
    by (auto simp: turn_page_def)
  from handler show ?thesis
  proof (elim disjE conjE exE)
    fix ts0
    assume image: "processedImage (app p) = None"
      and pending: "pending p = [ts0]" and closing: "closing ts0"
    with assms(2,3) have n: "n = 0" and ts0: "ts0 = t # ts" by simp_all
    show ?thesis
    proof (cases ts)
      case Nil
      with closing ts0 have "ending t" by simp
      from ending_run [OF this status image] libs Nil pending n status show ?thesis
        by (auto simp: render_in_turn_def turn_page_def outstanding_Nil)
    next
      case (Cons t' ts')
      with closing ts0 have q: "\<forall>a \<in> set t. quiet a" and rest: "closing ts" by simp_all
      from quiet_run [OF q, of "app p"] quiet_turn_chain [OF q, of "app p"]
        status image libs rest Cons pending n
      show ?thesis
        by (simp add: render_in_turn_def turn_page_def outstanding_Nil)
    qed
  next
    fix img
    assume image: "processedImage (app p) \<noteq> None"
      and pending: "pending p = [[[SetProcessedImage (Some img), SetStatus Success]]]"
    with assms(2,3) have "n = 0" "t = [SetProcessedImage (Some img), SetStatus Success]"
      "ts = []"
      by simp_all
    with status libs pending show ?thesis
      by (simp add: chain_Cons chain_Nil transition_in_turn_def render_in_turn_def
          turn_page_def outstanding_Nil)
  qed
qed

lemma fire_turn:
  assumes "turn_page p" and "\<forall>i. e = Input i \<longrightarrow> pending p = []"
  shows "chain transition_in_turn (app p) (fst (fire k e p))
       \<and> render_in_turn (app p) (app (snd (fire k e p)))
       \<and> turn_page (snd (fire k e p))"
proof -
  have idle: "chain transition_in_turn (app p) [] \<and> render_in_turn (app p) (app p)
      \<and> turn_page p"
    using assms(1) by (simp add: chain_Nil render_in_turn_def)
  show ?thesis
  proof (cases e)
    case (Input i)
    with assms(2) have none: "pending p = []" by simp
    show ?thesis
    proof (cases "enabled i (app p)")
      case False
      with Input idle show ?thesis by simp
    next
      case True
      show ?thesis
      proof (cases "tasks k i (app p)")
        case Nil
        with Input True idle show ?thesis by simp
      next
        case (Cons t ts)
        from turn_input [OF assms(1) none True Cons] Input True Cons show ?thesis
          by simp
      qed
    qed
  next
    case (Callback n)
    show ?thesis
    proof (cases "n < length (pending p)")
      case False
      with Callback idle show ?thesis by simp
    next
      case True
      show ?thesis
      proof (cases "pending p ! n")
        case Nil
        with Callback True idle show ?thesis by simp
      next
        case (Cons t ts)
        from turn_callback [OF assms(1) True Cons] Callback True Cons show ?thesis
          by simp
      qed
    qed
  qed
qed

lemma first_page_turn: "turn_page first_page"
  by (simp add: turn_page_def first_page_def initial_state_def)

lemma calls_turn_chain:
  "turn_page p \<Longrightarrow> in_turn k es p \<Longrightarrow>
     successively transition_in_turn (app p # calls k es p)"
proof (induction es arbitrary: p)
  case Nil
  then show ?case by simp
next
  case (Cons e es)
  from Cons.prems(2) have turn: "\<forall>i. e = Input i \<longrightarrow> pending p = []"
    and rest: "in_turn k es (snd (fire k e p))"
    by (cases e; simp)+
  from fire_turn [OF Cons.prems(1) turn, of k] have
    c: "successively transition_in_turn (app p # states (fst (fire k e p)) (app p))"
    and s: "turn_page (snd (fire k e p))"
    by (simp_all add: chain_def)
  from Cons.IH [OF s rest] have
    "successively transition_in_turn
       (last (app p # states (fst (fire k e p)) (app p)) # calls k es (snd (fire k e p)))"
    by (simp only: last_states fire_app)
  with c show ?case
    by (simp only: calls.simps successively_join)
qed

lemma renders_turn_chain:
  "turn_page p \<Longrightarrow> in_turn k es p \<Longrightarrow>
     successively render_in_turn (app p # renders k es p)"
proof (induction es arbitrary: p)
  case Nil
  then show ?case by simp
next
  case (Cons e es)
  from Cons.prems(2) have turn: "\<forall>i. e = Input i \<longrightarrow> pending p = []"
    and rest: "in_turn k es (snd (fire k e p))"
    by (cases e; simp)+
  from fire_turn [OF Cons.prems(1) turn, of k] Cons.IH [OF _ rest]
  show ?case by simp
qed

text \<open>Transitions that do not occur when the inputs come in turn.\<close>

lemma turn_statuses:
  "successively transition_in_turn xs \<Longrightarrow>
     successively (\<lambda>a b. (a = Processing \<longrightarrow> b \<noteq> Ready) \<and> (a = Ready \<longrightarrow> b \<noteq> Error)
                       \<and> (a = Error \<longrightarrow> b \<noteq> Processing))
       (remdups_adj (map status xs))"
proof -
  assume "successively transition_in_turn xs"
  then have "successively (\<lambda>s s'. (status s = Processing \<longrightarrow> status s' \<noteq> Ready)
                       \<and> (status s = Ready \<longrightarrow> status s' \<noteq> Error)
                       \<and> (status s = Error \<longrightarrow> status s' \<noteq> Processing)) xs"
    by (rule successively_mono) (auto simp: transition_in_turn_def)
  then have "successively (\<lambda>a b. (a = Processing \<longrightarrow> b \<noteq> Ready) \<and> (a = Ready \<longrightarrow> b \<noteq> Error)
                       \<and> (a = Error \<longrightarrow> b \<noteq> Processing)) (map status xs)"
    by (simp add: successively_map)
  then show ?thesis by (rule successively_remdups_adjI)
qed

lemma render_statuses:
  "successively render_in_turn xs \<Longrightarrow>
     successively (\<lambda>a b. (a = Processing \<longrightarrow> b \<noteq> Ready) \<and> (a = Ready \<longrightarrow> b \<noteq> Success))
       (map status xs)"
proof -
  assume "successively render_in_turn xs"
  then have "successively (\<lambda>s s'. (status s = Processing \<longrightarrow> status s' \<noteq> Ready)
                       \<and> (status s = Ready \<longrightarrow> status s' \<noteq> Success)) xs"
    by (rule successively_mono) (auto simp: render_in_turn_def)
  then show ?thesis
    by (simp add: successively_map)
qed

subsection \<open>What a run leaves of the state before it\<close>

lemma apply_action_observable:
  "observable s1 = observable s2 \<Longrightarrow>
     observable (apply_action a s1) = observable (apply_action a s2)"
proof (cases a)
  case (SetLibraryLoaded lib)
  assume "observable s1 = observable s2"
  with SetLibraryLoaded show ?thesis by (cases lib) (simp_all add: observable_def)
qed (simp_all add: observable_def)

lemma run_observable:
  "observable s1 = observable s2 \<Longrightarrow> observable (run as s1) = observable (run as s2)"
proof (induction as arbitrary: s1 s2)
  case Nil
  then show ?case by simp
next
  case (Cons a as)
  from Cons.IH [OF apply_action_observable [OF Cons.prems]] show ?case by simp
qed

lemma reset_observable: "observable (run reset s1) = observable (run reset s2)"
  by (simp add: reset_def observable_def)

section \<open>The claims\<close>

subsection \<open>C1: when the fallback activates\<close>

text \<open>
  C1. The fallback activates (its log line is written) if and only if no candidate
  survives the filters and the page ratio \<open>cols / rows\<close> lies strictly between 0.4 and
  2.5; a page of height zero has no ratio in that window. When it activates, the whole
  page is the best region. When no candidate survives and the ratio is outside the
  window, the run is rejected with the error \<^verbatim>\<open>No shipping label detected.\<close>, having
  written log lines only: no region is chosen and no image is stored.
\<close>

theorem fallback_iff:
  "(FallbackTriggered \<in> set (fst (selectRegion src cs))
      \<longleftrightarrow> collectCandidates (cols src * rows src) cs = [] \<and> pageRatioInWindow src)
   \<and> (pageRatioInWindow src \<longleftrightarrow>
        0 < rows src
        \<and> (0.4 :: rat) < of_nat (cols src) / of_nat (rows src)
        \<and> of_nat (cols src) / of_nat (rows src) < (2.5 :: rat))
   \<and> (collectCandidates (cols src * rows src) cs = [] \<and> pageRatioInWindow src \<longrightarrow>
        snd (selectRegion src cs)
          = Inr \<lparr>rect_x = 0, rect_y = 0, width = cols src, height = rows src\<rparr>)
   \<and> (collectCandidates (cols src * rows src) cs = [] \<and> \<not> pageRatioInWindow src \<longrightarrow>
        snd (selectRegion src cs) = Inl NoLabelDetected
        \<and> processImage k src (Inr cs)
            = (map AddLog [StartingCV, FoundContours (length cs), NoContourFound],
               Some NoLabelDetected))"
proof (cases "collectCandidates (cols src * rows src) cs = []")
  case True
  then show ?thesis
    using pageRatioInWindow_iff [of src]
    by (simp add: selectRegion_empty processImage_def)
next
  case False
  then show ?thesis
    using pageRatioInWindow_iff [of src]
    by (simp add: selectRegion_nonempty)
qed

text \<open>A page of 1000 by 1400 without contours takes the fallback; a page of 3000 by
  500 without contours is rejected.\<close>

theorem fallback_iff_witness:
  "collectCandidates (cols (blankPage 1000 1400) * rows (blankPage 1000 1400)) [] = []
   \<and> pageRatioInWindow (blankPage 1000 1400)
   \<and> FallbackTriggered \<in> set (fst (selectRegion (blankPage 1000 1400) []))
   \<and> snd (selectRegion (blankPage 1000 1400) [])
       = Inr \<lparr>rect_x = 0, rect_y = 0, width = 1000, height = 1400\<rparr>
   \<and> \<not> pageRatioInWindow (blankPage 3000 500)
   \<and> processImage constKernel (blankPage 3000 500) (Inr [])
       = (map AddLog [StartingCV, FoundContours 0, NoContourFound], Some NoLabelDetected)"
proof -
  have inside: "pageRatioInWindow (blankPage 1000 1400)"
    by (simp add: pageRatioInWindow_def js_gt_def blankPage_def)
  have outside: "\<not> pageRatioInWindow (blankPage 3000 500)"
    by (simp add: pageRatioInWindow_def js_gt_def blankPage_def)
  have empty: "collectCandidates (cols (blankPage w h) * rows (blankPage w h)) [] = []" for w h
    by simp
  from fallback_iff [of "blankPage 1000 1400" "[]" constKernel] inside empty
  have "FallbackTriggered \<in> set (fst (selectRegion (blankPage 1000 1400) []))"
    and "snd (selectRegion (blankPage 1000 1400) [])
       = Inr \<lparr>rect_x = 0, rect_y = 0, width = cols (blankPage 1000 1400),
              height = rows (blankPage 1000 1400)\<rparr>"
    by blast+
  moreover from fallback_iff [of "blankPage 3000 500" "[]" constKernel] outside empty
  have "processImage constKernel (blankPage 3000 500) (Inr [])
       = (map AddLog [StartingCV, FoundContours (length ([] :: rect list)), NoContourFound],
          Some NoLabelDetected)"
    by blast
  ultimately show ?thesis
    using inside outside by (simp add: blankPage_def)
qed

subsection \<open>C2: the bounds of the selected candidate\<close>

text \<open>
  C2, as amended. A best region that comes from the contours is one of the contour
  rectangles, its area \<open>width * height\<close> lies between \<open>MIN_AREA_RATIO\<close> and
  \<open>MAX_AREA_RATIO\<close> times the area of the page, and its ratio \<open>width / height\<close> is
  neither below 0.2 nor above 4.0 (for a rectangle of positive height: it lies between
  0.2 and 4.0). The candidate that the fallback makes of the whole page does not pass
  the filters: it is the page itself, and of its bounds only \<open>0.4 < width / height < 2.5\<close>
  is checked.
\<close>

theorem selected_candidate_bounds:
  assumes "selectRegion src cs = (ls, Inr bestRect)"
  shows "(FallbackTriggered \<notin> set ls \<longrightarrow>
            bestRect \<in> set cs
          \<and> of_nat (cols src * rows src) * MIN_AREA_RATIO CONFIG
              \<le> (of_nat (width bestRect * height bestRect) :: rat)
          \<and> (of_nat (width bestRect * height bestRect) :: rat)
              \<le> of_nat (cols src * rows src) * MAX_AREA_RATIO CONFIG
          \<and> \<not> js_lt (js_div (width bestRect) (height bestRect)) (Finite 0.2)
          \<and> \<not> js_gt (js_div (width bestRect) (height bestRect)) (Finite 4.0)
          \<and> (0 < height bestRect \<longrightarrow>
                (0.2 :: rat) \<le> of_nat (width bestRect) / of_nat (height bestRect)
              \<and> of_nat (width bestRect) / of_nat (height bestRect) \<le> (4.0 :: rat)))
       \<and> (FallbackTriggered \<in> set ls \<longrightarrow>
            bestRect = \<lparr>rect_x = 0, rect_y = 0, width = cols src, height = rows src\<rparr>
          \<and> (0.4 :: rat) < of_nat (width bestRect) / of_nat (height bestRect)
          \<and> of_nat (width bestRect) / of_nat (height bestRect) < (2.5 :: rat))"
proof (cases "collectCandidates (cols src * rows src) cs = []")
  case True
  with assms show ?thesis
    using pageRatioInWindow_iff [of src]
    by (auto simp: selectRegion_empty split: if_splits)
next
  case False
  define cands where "cands = collectCandidates (cols src * rows src) cs"
  from False have ne: "cands \<noteq> []" by (simp add: cands_def)
  from hd_array_sort_first_greatest [OF ne] obtain i where
    i: "i < length cands" and hd_i: "hd (array_sort byAreaDescending cands) = cands ! i"
    by blast
  from False assms have ls: "ls = [FoundContours (length cs)]"
    and best: "bestRect = rect (cands ! i)"
    using hd_i by (simp_all add: selectRegion_nonempty cands_def)
  from i have "cands ! i \<in> set (collectCandidates (cols src * rows src) cs)"
    by (simp add: cands_def)
  from collectCandidates_bounds [OF this] show ?thesis
    using ls best ratio_bounds_rat [of "width bestRect" "height bestRect"]
    by (simp del: js_div.simps of_nat_mult)
qed

text \<open>The label of 1000 by 1500 on a page of 2400 by 3600 is selected within the
  bounds; on the page of 1000 by 1400 without contours the fallback selects the page.\<close>

theorem selected_candidate_bounds_witness:
  "selectRegion (blankPage 2400 3600) [portraitLabel] = ([FoundContours 1], Inr portraitLabel)
   \<and> FallbackTriggered \<notin> set [FoundContours 1]
   \<and> 0 < height portraitLabel
   \<and> of_nat (cols (blankPage 2400 3600) * rows (blankPage 2400 3600)) * MIN_AREA_RATIO CONFIG
        \<le> (of_nat (width portraitLabel * height portraitLabel) :: rat)
   \<and> (of_nat (width portraitLabel * height portraitLabel) :: rat)
        \<le> of_nat (cols (blankPage 2400 3600) * rows (blankPage 2400 3600))
             * MAX_AREA_RATIO CONFIG
   \<and> (0.2 :: rat) \<le> of_nat (width portraitLabel) / of_nat (height portraitLabel)
   \<and> of_nat (width portraitLabel) / of_nat (height portraitLabel) \<le> (4.0 :: rat)
   \<and> FallbackTriggered \<in> set [FoundContours 0, NoContourFound, FallbackTriggered]
   \<and> (0.4 :: rat) < of_nat (1000 :: nat) / of_nat (1400 :: nat)
   \<and> of_nat (1000 :: nat) / of_nat (1400 :: nat) < (2.5 :: rat)"
proof -
  have no_fallback: "FallbackTriggered \<notin> set [FoundContours 1]" by simp
  have positive: "0 < height portraitLabel" by (simp add: shape_portraitLabel)
  have took_fallback: "FallbackTriggered \<in> set [FoundContours 0, NoContourFound, FallbackTriggered]"
    by simp
  from selected_candidate_bounds [OF selectRegion_portraitLabel] no_fallback positive
  have "of_nat (cols (blankPage 2400 3600) * rows (blankPage 2400 3600)) * MIN_AREA_RATIO CONFIG
        \<le> (of_nat (width portraitLabel * height portraitLabel) :: rat)"
    and "(of_nat (width portraitLabel * height portraitLabel) :: rat)
        \<le> of_nat (cols (blankPage 2400 3600) * rows (blankPage 2400 3600))
             * MAX_AREA_RATIO CONFIG"
    and "(0.2 :: rat) \<le> of_nat (width portraitLabel) / of_nat (height portraitLabel)"
    and "of_nat (width portraitLabel) / of_nat (height portraitLabel) \<le> (4.0 :: rat)"
    by blast+
  moreover from selected_candidate_bounds [OF selectRegion_fallback_page] took_fallback
  have "(0.4 :: rat) < of_nat (width \<lparr>rect_x = 0, rect_y = 0, width = 1000, height = 1400\<rparr>)
                        / of_nat (height \<lparr>rect_x = 0, rect_y = 0, width = 1000, height = 1400\<rparr>)"
    and "of_nat (width \<lparr>rect_x = 0, rect_y = 0, width = 1000, height = 1400\<rparr>)
           / of_nat (height \<lparr>rect_x = 0, rect_y = 0, width = 1000, height = 1400\<rparr>)
         < (2.5 :: rat)"
    by blast+
  ultimately show ?thesis
    using selectRegion_portraitLabel positive by simp
qed

text \<open>The claim as stated fails on the fallback: on a page of 1000 by 1400 without
  contours the candidate that reaches selection has the area of the page, 1400000,
  which is above \<open>MAX_AREA_RATIO\<close> times the area of the page.\<close>

theorem fallback_candidate_exceeds_area_bound:
  "selectRegion (blankPage 1000 1400) []
     = ([FoundContours 0, NoContourFound, FallbackTriggered],
        Inr \<lparr>rect_x = 0, rect_y = 0, width = 1000, height = 1400\<rparr>)
   \<and> fallback (blankPage 1000 1400) (collectCandidates (1000 * 1400) [])
     = ([NoContourFound, FallbackTriggered],
        Inr [\<lparr>area = 1400000,
               rect = \<lparr>rect_x = 0, rect_y = 0, width = 1000, height = 1400\<rparr>\<rparr>])
   \<and> \<not> ((of_nat 1400000 :: rat) \<le> of_nat (1000 * 1400) * MAX_AREA_RATIO CONFIG)"
  by (simp add: selectRegion_def fallback_def pageRatioInWindow_def js_gt_def
      bestCandidate_def blankPage_def CONFIG_def)

subsection \<open>C3: the size of the output\<close>

text \<open>
  C3. Whenever \<^verbatim>\<open>processImage\<close> resolves, whatever the size of the input and the
  contours found, the processed image it stores has the width \<open>TARGET_WIDTH\<close>, 1200,
  and the height \<open>TARGET_HEIGHT\<close>, 1800, and the status is \<^verbatim>\<open>success\<close>. Whenever the
  upload of a file ends in the status \<^verbatim>\<open>success\<close>, the processed image has that size.
\<close>

theorem output_dimensions:
  "(snd (processImage k src found) = None \<longrightarrow>
     (\<exists>final. processedImage (run (fst (processImage k src found)) s) = Some final
        \<and> cols final = TARGET_WIDTH CONFIG \<and> rows final = TARGET_HEIGHT CONFIG
        \<and> cols final = 1200 \<and> rows final = 1800
        \<and> status (run (fst (processImage k src found)) s) = Success))
   \<and> (uploadedFile u = Some f \<and> status (run (handleFileUpload k u) s) = Success \<longrightarrow>
     (\<exists>final. processedImage (run (handleFileUpload k u) s) = Some final
        \<and> cols final = TARGET_WIDTH CONFIG \<and> rows final = TARGET_HEIGHT CONFIG
        \<and> cols final = 1200 \<and> rows final = 1800))"
proof (intro conjI impI)
  assume "snd (processImage k src found) = None"
  with processImage_cases [of k src found]
  show "\<exists>final. processedImage (run (fst (processImage k src found)) s) = Some final
        \<and> cols final = TARGET_WIDTH CONFIG \<and> rows final = TARGET_HEIGHT CONFIG
        \<and> cols final = 1200 \<and> rows final = 1800
        \<and> status (run (fst (processImage k src found)) s) = Success"
    by (auto simp: run_append run_AddLog CONFIG_def)
next
  assume "uploadedFile u = Some f \<and> status (run (handleFileUpload k u) s) = Success"
  with handleFileUpload_outcome [of u f k s]
  show "\<exists>final. processedImage (run (handleFileUpload k u) s) = Some final
        \<and> cols final = TARGET_WIDTH CONFIG \<and> rows final = TARGET_HEIGHT CONFIG
        \<and> cols final = 1200 \<and> rows final = 1800"
    by (auto simp: CONFIG_def)
qed

text \<open>The upload of the label of 1000 by 1500 on a page of 2400 by 3600.\<close>

theorem output_dimensions_witness:
  "snd (processImage constKernel (blankPage 2400 3600) (Inr [portraitLabel])) = None
   \<and> (\<exists>final. processedImage
         (run (fst (processImage constKernel (blankPage 2400 3600) (Inr [portraitLabel])))
            initial_state) = Some final
       \<and> cols final = 1200 \<and> rows final = 1800)
   \<and> uploadedFile labelUpload = Some \<lparr>file_name = ''label.png'', file_type = ''image/png''\<rparr>
   \<and> status (run (handleFileUpload constKernel labelUpload) initial_state) = Success
   \<and> (\<exists>final. processedImage (run (handleFileUpload constKernel labelUpload) initial_state)
         = Some final
       \<and> cols final = 1200 \<and> rows final = 1800)"
proof -
  have resolved: "snd (processImage constKernel (blankPage 2400 3600) (Inr [portraitLabel])) = None"
    by (simp add: processImage_selected [OF selectRegion_portraitLabel])
  have selected:
    "uploadedFile labelUpload = Some \<lparr>file_name = ''label.png'', file_type = ''image/png''\<rparr>"
    by (simp add: labelUpload_def)
  have success: "status (run (handleFileUpload constKernel labelUpload) initial_state) = Success"
    by (simp add: handleFileUpload_labelUpload reset_def)
  from output_dimensions [of constKernel "blankPage 2400 3600" "Inr [portraitLabel]" initial_state
      labelUpload "\<lparr>file_name = ''label.png'', file_type = ''image/png''\<rparr>"]
    resolved selected success
  show ?thesis by blast
qed

subsection \<open>C4: orientation\<close>

text \<open>
  C4. The image that is resized is the crop at the best region after the orientation
  rule. If the crop is wider than tall it is the crop rotated by 90 degrees clockwise:
  width and height are swapped, the result is at least as tall as wide, and the pixel
  in row \<open>i\<close> and column \<open>j\<close> of the result is the pixel in row \<open>height - 1 - j\<close> and
  column \<open>i\<close> of the crop. If the crop is not wider than tall it is the crop unchanged.
\<close>

theorem orientation_rule:
  assumes "selectRegion src cs = (ls, Inr bestRect)"
  shows "processedImage (run (fst (processImage k src (Inr cs))) s)
           = Some (cv_resize k (snd (orient (roi src bestRect)))
                     (TARGET_WIDTH CONFIG, TARGET_HEIGHT CONFIG))
       \<and> (width bestRect > height bestRect \<longrightarrow>
            snd (orient (roi src bestRect)) = cv_rotate (roi src bestRect) ROTATE_90_CLOCKWISE
          \<and> cols (snd (orient (roi src bestRect))) = height bestRect
          \<and> rows (snd (orient (roi src bestRect))) = width bestRect
          \<and> cols (snd (orient (roi src bestRect))) \<le> rows (snd (orient (roi src bestRect)))
          \<and> (\<forall>i j. px (snd (orient (roi src bestRect))) i j
                      = px (roi src bestRect) (height bestRect - 1 - j) i))
       \<and> (width bestRect \<le> height bestRect \<longrightarrow>
            snd (orient (roi src bestRect)) = roi src bestRect)"
  using assms
  by (simp add: processImage_selected run_append run_AddLog orient_def roi_def
      del: map_append)

text \<open>The label of 1500 by 1000 is rotated to 1000 by 1500; the label of 1000 by 1500
  is left as it is.\<close>

theorem orientation_rule_witness:
  "selectRegion (blankPage 2400 3600) [landscapeLabel] = ([FoundContours 1], Inr landscapeLabel)
   \<and> width landscapeLabel > height landscapeLabel
   \<and> snd (orient (roi (blankPage 2400 3600) landscapeLabel))
       = cv_rotate (roi (blankPage 2400 3600) landscapeLabel) ROTATE_90_CLOCKWISE
   \<and> cols (snd (orient (roi (blankPage 2400 3600) landscapeLabel))) = 1000
   \<and> rows (snd (orient (roi (blankPage 2400 3600) landscapeLabel))) = 1500
   \<and> selectRegion (blankPage 2400 3600) [portraitLabel] = ([FoundContours 1], Inr portraitLabel)
   \<and> width portraitLabel \<le> height portraitLabel
   \<and> snd (orient (roi (blankPage 2400 3600) portraitLabel))
       = roi (blankPage 2400 3600) portraitLabel"
proof -
  have landscape: "width landscapeLabel > height landscapeLabel"
    by (simp add: shape_landscapeLabel)
  have portrait: "width portraitLabel \<le> height portraitLabel"
    by (simp add: shape_portraitLabel)
  from orientation_rule [OF selectRegion_landscapeLabel, of constKernel initial_state] landscape
  have "snd (orient (roi (blankPage 2400 3600) landscapeLabel))
       = cv_rotate (roi (blankPage 2400 3600) landscapeLabel) ROTATE_90_CLOCKWISE"
    and "cols (snd (orient (roi (blankPage 2400 3600) landscapeLabel))) = height landscapeLabel"
    and "rows (snd (orient (roi (blankPage 2400 3600) landscapeLabel))) = width landscapeLabel"
    by blast+
  moreover
  from orientation_rule [OF selectRegion_portraitLabel, of constKernel initial_state] portrait
  have "snd (orient (roi (blankPage 2400 3600) portraitLabel))
       = roi (blankPage 2400 3600) portraitLabel"
    by blast
  ultimately show ?thesis
    using landscape portrait selectRegion_landscapeLabel selectRegion_portraitLabel
    by (simp add: shape_landscapeLabel)
qed

subsection \<open>C5: the largest candidate, the first of the largest\<close>

text \<open>
  C5. When candidates survive the filters, the best region is the rectangle of a
  candidate of greatest area, and every candidate before it in the order of extraction
  has a strictly smaller area: of the candidates of greatest area the first one is
  selected.
\<close>

theorem largest_area_first_found:
  assumes "cands = collectCandidates (cols src * rows src) cs" and "cands \<noteq> []"
  shows "\<exists>i<length cands.
           bestCandidate cands = Inr (cands ! i)
         \<and> snd (selectRegion src cs) = Inr (rect (cands ! i))
         \<and> (\<forall>j<length cands. area (cands ! j) \<le> area (cands ! i))
         \<and> (\<forall>j<i. area (cands ! j) < area (cands ! i))"
proof -
  from hd_array_sort_first_greatest [OF assms(2)] obtain i where
    "i < length cands" "hd (array_sort byAreaDescending cands) = cands ! i"
    "\<forall>j<length cands. area (cands ! j) \<le> area (cands ! i)"
    "\<forall>j<i. area (cands ! j) < area (cands ! i)"
    by blast
  moreover have "bestCandidate cands = Inr (hd (array_sort byAreaDescending cands))"
    using assms(2) by (rule bestCandidate_hd)
  moreover have "snd (selectRegion src cs) = Inr (rect (hd (array_sort byAreaDescending cands)))"
    using assms by (simp add: selectRegion_nonempty)
  ultimately show ?thesis by auto
qed

text \<open>On a page of 100 by 100, of four contours with the areas 100, 400, 400 and 400
  the second is selected.\<close>

theorem largest_area_first_found_witness:
  "collectCandidates (cols (blankPage 100 100) * rows (blankPage 100 100)) tiedContours
     = [\<lparr>area = 100, rect = \<lparr>rect_x = 0, rect_y = 0, width = 10, height = 10\<rparr>\<rparr>,
        \<lparr>area = 400, rect = \<lparr>rect_x = 1, rect_y = 1, width = 20, height = 20\<rparr>\<rparr>,
        \<lparr>area = 400, rect = \<lparr>rect_x = 5, rect_y = 5, width = 10, height = 40\<rparr>\<rparr>,
        \<lparr>area = 400, rect = \<lparr>rect_x = 0, rect_y = 0, width = 40, height = 10\<rparr>\<rparr>]
   \<and> snd (selectRegion (blankPage 100 100) tiedContours)
     = Inr \<lparr>rect_x = 1, rect_y = 1, width = 20, height = 20\<rparr>"
proof -
  define cands where
    "cands = collectCandidates (cols (blankPage 100 100) * rows (blankPage 100 100)) tiedContours"
  have ev: "cands
     = [\<lparr>area = 100, rect = \<lparr>rect_x = 0, rect_y = 0, width = 10, height = 10\<rparr>\<rparr>,
        \<lparr>area = 400, rect = \<lparr>rect_x = 1, rect_y = 1, width = 20, height = 20\<rparr>\<rparr>,
        \<lparr>area = 400, rect = \<lparr>rect_x = 5, rect_y = 5, width = 10, height = 40\<rparr>\<rparr>,
        \<lparr>area = 400, rect = \<lparr>rect_x = 0, rect_y = 0, width = 40, height = 10\<rparr>\<rparr>]"
    by (simp add: cands_def tiedContours_def blankPage_def CONFIG_def js_gt_def)
  then have ne: "cands \<noteq> []" by simp
  from largest_area_first_found [OF cands_def ne] obtain i where
    i: "i < length cands"
    and sel: "snd (selectRegion (blankPage 100 100) tiedContours) = Inr (rect (cands ! i))"
    and greatest: "\<forall>j<length cands. area (cands ! j) \<le> area (cands ! i)"
    and first: "\<forall>j<i. area (cands ! j) < area (cands ! i)"
    by blast
  have len: "length cands = 4" using ev by simp
  have areas: "area (cands ! 0) = 100" "area (cands ! 1) = 400"
    "area (cands ! 2) = 400" "area (cands ! 3) = 400"
    using ev by simp_all
  from greatest [rule_format, of 1] len have g1: "area (cands ! 1) \<le> area (cands ! i)"
    by simp
  from first [rule_format, of 1] have f1: "1 < i \<Longrightarrow> area (cands ! 1) < area (cands ! i)"
    by simp
  from i len have "i = 0 \<or> i = 1 \<or> i = 2 \<or> i = 3" by arith
  with g1 f1 areas have "i = 1" by auto
  moreover have "rect (cands ! 1) = \<lparr>rect_x = 1, rect_y = 1, width = 20, height = 20\<rparr>"
    using ev by simp
  ultimately have "snd (selectRegion (blankPage 100 100) tiedContours)
     = Inr \<lparr>rect_x = 1, rect_y = 1, width = 20, height = 20\<rparr>"
    using sel by simp
  with ev [unfolded cands_def] show ?thesis by (intro conjI)
qed

subsection \<open>C6: the transitions of the status\<close>

text \<open>
  C6, as amended. From the first render on, in every order of the inputs that the page
  lets through and of the callbacks of the handlers that are pending, the following
  holds between two consecutive setter calls, and also between two consecutive tasks
  (the states rendered when the calls of a task are batched). The status stays; or it
  goes from \<^verbatim>\<open>loading\<close> to \<^verbatim>\<open>ready\<close>; or, from any status but \<^verbatim>\<open>loading\<close>, to
  \<^verbatim>\<open>ready\<close> with the file, the original image and the processed image discarded
  (\<^verbatim>\<open>reset\<close>, called by its buttons and at the start of every upload), to
  \<^verbatim>\<open>processing\<close> with a processed image (the manual rotation) or with a file and
  without an original image (the start of an upload), to \<^verbatim>\<open>success\<close> with a processed
  image, or to \<^verbatim>\<open>error\<close>. It never goes back to \<^verbatim>\<open>loading\<close>.

  If moreover every input comes while no handler is pending, then between two
  consecutive setter calls the status either stays, or goes from \<^verbatim>\<open>loading\<close> to
  \<^verbatim>\<open>ready\<close>, from \<^verbatim>\<open>ready\<close> to \<^verbatim>\<open>processing\<close>, from \<^verbatim>\<open>processing\<close> to \<^verbatim>\<open>success\<close>
  or \<^verbatim>\<open>error\<close>, from \<^verbatim>\<open>success\<close> or \<^verbatim>\<open>error\<close> to \<^verbatim>\<open>ready\<close> with the file, the
  original image and the processed image discarded, or, in the manual rotation, from
  \<^verbatim>\<open>success\<close> to \<^verbatim>\<open>processing\<close> with the processed image kept. Between two
  consecutive tasks the same holds with the start of an upload as one step: it leads
  from \<^verbatim>\<open>ready\<close>, \<^verbatim>\<open>success\<close> or \<^verbatim>\<open>error\<close> to \<^verbatim>\<open>processing\<close>, or for a file of
  another type to \<^verbatim>\<open>error\<close>, with the file set and both images discarded.
\<close>

theorem status_transitions:
  "successively transition (initial_state # calls k es first_page)
   \<and> successively transition (initial_state # renders k es first_page)
   \<and> (in_turn k es first_page \<longrightarrow>
        successively transition_in_turn (initial_state # calls k es first_page)
        \<and> successively render_in_turn (initial_state # renders k es first_page))"
  using calls_chain [OF first_page_sound, of k es] renders_chain [OF first_page_sound, of k es]
    calls_turn_chain [OF first_page_turn, of k es]
    renders_turn_chain [OF first_page_turn, of k es]
  by (simp add: first_page_def)

text \<open>Both libraries load, a label is uploaded and processed, and the result is
  rotated to the left, every input in its turn; and the same with a click on the reset
  button before the rotated image has loaded.\<close>

theorem status_transitions_witness:
  "in_turn constKernel labelEvents first_page
   \<and> successively transition_in_turn
       (initial_state # calls constKernel labelEvents first_page)
   \<and> successively render_in_turn
       (initial_state # renders constKernel labelEvents first_page)
   \<and> status (last (initial_state # calls constKernel labelEvents first_page)) = Success
   \<and> length (calls constKernel labelEvents first_page) = 26
   \<and> successively transition (initial_state # calls constKernel raceEvents first_page)
   \<and> successively transition (initial_state # renders constKernel raceEvents first_page)
   \<and> status (last (initial_state # renders constKernel raceEvents first_page)) = Success
   \<and> length (renders constKernel raceEvents first_page) = 8"
proof -
  have "status (last (initial_state # calls constKernel labelEvents first_page)) = Success"
    and "length (calls constKernel labelEvents first_page) = 26"
    by (simp_all add: labelEvents_def page_simps)
  moreover
  have "status (last (initial_state # renders constKernel raceEvents first_page)) = Success"
    and "length (renders constKernel raceEvents first_page) = 8"
    by (simp_all add: raceEvents_def page_simps)
  moreover
  from status_transitions [of constKernel labelEvents] labelEvents_turn
  have "successively transition_in_turn
       (initial_state # calls constKernel labelEvents first_page)"
    and "successively render_in_turn
       (initial_state # renders constKernel labelEvents first_page)"
    by blast+
  moreover
  from status_transitions [of constKernel raceEvents]
  have "successively transition (initial_state # calls constKernel raceEvents first_page)"
    and "successively transition (initial_state # renders constKernel raceEvents first_page)"
    by blast+
  ultimately show ?thesis
    using labelEvents_turn by (intro conjI)
qed

text \<open>The claim as stated fails. The status starts in \<^verbatim>\<open>loading\<close>, and with every
  input in its turn the manual rotation takes it from \<^verbatim>\<open>success\<close> to \<^verbatim>\<open>processing\<close>
  and back, without a reset. With every input in its turn again, when a text file is
  selected, then the label, then the text file, the states rendered after each task go
  from \<^verbatim>\<open>ready\<close> to \<^verbatim>\<open>error\<close>, from \<^verbatim>\<open>error\<close> to \<^verbatim>\<open>processing\<close> and from
  \<^verbatim>\<open>success\<close> to \<^verbatim>\<open>error\<close>: the transitions between setter calls do not hold between
  tasks. When the reset button is clicked before the rotated image has loaded, the
  status goes from \<^verbatim>\<open>processing\<close> to \<^verbatim>\<open>ready\<close>, and the callback of the rotation takes
  it from \<^verbatim>\<open>ready\<close> to \<^verbatim>\<open>success\<close>: the transitions of inputs in turn do not hold in
  every order. In the last sequence of events, callbacks that come late take the status
  from \<^verbatim>\<open>error\<close> to \<^verbatim>\<open>success\<close>, from \<^verbatim>\<open>success\<close> to \<^verbatim>\<open>error\<close> and from \<^verbatim>\<open>ready\<close> to
  \<^verbatim>\<open>error\<close>, and a rotation takes it from \<^verbatim>\<open>error\<close> to \<^verbatim>\<open>processing\<close>.\<close>

theorem transitions_outside_state_machine:
  "in_turn constKernel labelEvents first_page
   \<and> remdups_adj (map status (initial_state # calls constKernel labelEvents first_page))
       = [Loading, Ready, Processing, Success, Processing, Success]
   \<and> \<not> spec_transition Loading Ready
   \<and> \<not> spec_transition Success Processing
   \<and> \<not> successively spec_transition
         (tl (remdups_adj
            (map status (initial_state # calls constKernel labelEvents first_page))))
   \<and> in_turn constKernel retryEvents first_page
   \<and> map status (initial_state # renders constKernel retryEvents first_page)
       = [Loading, Loading, Ready, Error, Processing, Processing, Success, Error]
   \<and> \<not> spec_transition Ready Error
   \<and> \<not> spec_transition Error Processing
   \<and> \<not> spec_transition Success Error
   \<and> \<not> successively transition_in_turn
         (initial_state # renders constKernel retryEvents first_page)
   \<and> remdups_adj (map status (initial_state # calls constKernel raceEvents first_page))
       = [Loading, Ready, Processing, Success, Processing, Ready, Success]
   \<and> map status (initial_state # renders constKernel raceEvents first_page)
       = [Loading, Loading, Ready, Processing, Processing, Success, Processing, Ready, Success]
   \<and> \<not> spec_transition Processing Ready
   \<and> \<not> spec_transition Ready Success
   \<and> \<not> successively transition_in_turn
         (initial_state # calls constKernel raceEvents first_page)
   \<and> \<not> successively render_in_turn
         (initial_state # renders constKernel raceEvents first_page)
   \<and> remdups_adj (map status (initial_state # calls constKernel staleEvents first_page))
       = [Loading, Ready, Processing, Success, Processing, Ready, Processing, Error, Success,
          Processing, Ready, Processing, Success, Error, Processing, Ready, Error]
   \<and> map status (initial_state # renders constKernel staleEvents first_page)
       = [Loading, Loading, Ready, Processing, Processing, Success, Processing, Ready, Error,
          Success, Processing, Ready, Processing, Success, Error, Processing, Ready, Error]
   \<and> \<not> spec_transition Error Success"
proof -
  have "remdups_adj (map status (initial_state # renders constKernel retryEvents first_page))
       = [Loading, Ready, Error, Processing, Success, Error]"
    unfolding retryEvents_statuses by simp
  then have retry: "\<not> successively transition_in_turn
         (initial_state # renders constKernel retryEvents first_page)"
    using turn_statuses [of "initial_state # renders constKernel retryEvents first_page"]
    by auto
  have race: "\<not> successively transition_in_turn
         (initial_state # calls constKernel raceEvents first_page)"
    using turn_statuses [of "initial_state # calls constKernel raceEvents first_page"]
    unfolding raceEvents_statuses by auto
  have race': "\<not> successively render_in_turn
         (initial_state # renders constKernel raceEvents first_page)"
    using render_statuses [of "initial_state # renders constKernel raceEvents first_page"]
    unfolding raceEvents_statuses by auto
  show ?thesis
    using labelEvents_turn labelEvents_statuses(1) retryEvents_turn retryEvents_statuses(2)
      raceEvents_statuses staleEvents_statuses retry race race'
    by (simp add: spec_transition_def)
qed

subsection \<open>C7: rotating left, then right\<close>

text \<open>
  C7. With a processed image, the manual rotation to the left stores an image with
  width and height swapped, and the rotation to the right after it stores an image of
  the original width and height; within that width its pixels are the original ones.
\<close>

theorem rotate_left_then_right:
  assumes "processedImage s = Some img"
  shows "\<exists>img1 img2.
           processedImage (run (handleRotate Left s) s) = Some img1
         \<and> cols img1 = rows img \<and> rows img1 = cols img
         \<and> processedImage (run (handleRotate Right (run (handleRotate Left s) s))
                              (run (handleRotate Left s) s)) = Some img2
         \<and> cols img2 = cols img \<and> rows img2 = rows img
         \<and> (\<forall>i j. j < cols img \<longrightarrow> px img2 i j = px img i j)"
  using assms by (simp add: handleRotate_def)

theorem rotate_left_then_right_witness:
  "processedImage processedState = Some (blankPage 1200 1800)
   \<and> (\<exists>img1 img2.
         processedImage (run (handleRotate Left processedState) processedState) = Some img1
       \<and> cols img1 = 1800 \<and> rows img1 = 1200
       \<and> processedImage
            (run (handleRotate Right (run (handleRotate Left processedState) processedState))
               (run (handleRotate Left processedState) processedState)) = Some img2
       \<and> cols img2 = 1200 \<and> rows img2 = 1800)"
proof -
  have image: "processedImage processedState = Some (blankPage 1200 1800)"
    by (simp add: processedState_def)
  from rotate_left_then_right [OF image] obtain img1 img2 where
    "processedImage (run (handleRotate Left processedState) processedState) = Some img1"
    "cols img1 = rows (blankPage 1200 1800)" "rows img1 = cols (blankPage 1200 1800)"
    "processedImage
       (run (handleRotate Right (run (handleRotate Left processedState) processedState))
          (run (handleRotate Left processedState) processedState)) = Some img2"
    "cols img2 = cols (blankPage 1200 1800)" "rows img2 = rows (blankPage 1200 1800)"
    by blast
  with image show ?thesis
    by (intro conjI exI [of _ img1] exI [of _ img2]) (simp_all add: blankPage_def)
qed

subsection \<open>C8: a page of area zero\<close>

text \<open>
  C8, as amended. The code has no check of the size of the image and constructs no
  error of its own for an invalid input; for an image of width or height zero no
  processed image is stored. Once such an image has loaded, the read of the canvas
  (\<^verbatim>\<open>getImageData\<close>, line 245) throws the \<^verbatim>\<open>IndexSizeError\<close> of the browser before
  OpenCV is called: \<^verbatim>\<open>processImage\<close> rejects its promise with that exception after
  its first log line, setting neither the processed image nor the status, and the
  upload of the image, read from an image file or rendered from a PDF, ends in the
  status \<^verbatim>\<open>error\<close> with the message of the exception as the last log line.
\<close>

theorem zero_area_page_rejected:
  assumes "cols src * rows src = 0"
  shows "analyse src found = Inl (IndexSizeError (if cols src = 0 then ''width'' else ''height''))
       \<and> processImage k src (analyse src found)
           = ([AddLog StartingCV],
              Some (IndexSizeError (if cols src = 0 then ''width'' else ''height'')))
       \<and> processedImage (run (fst (processImage k src (analyse src found))) s) = processedImage s
       \<and> status (run (fst (processImage k src (analyse src found))) s) = status s
       \<and> (uploadedFile u = Some f
            \<and> (if file_type f = ''application/pdf'' then pdfDocument u = Inr (n, Inr src)
                else prefix ''image/'' (file_type f) \<and> dataURL u = Inr src) \<longrightarrow>
              processedImage (run (handleFileUpload k u) s) = None
            \<and> (imageLoads u \<longrightarrow>
                  status (run (handleFileUpload k u) s) = Error
                  \<and> last (logs (run (handleFileUpload k u) s))
                      = ErrorMsg (message
                          (IndexSizeError (if cols src = 0 then ''width'' else ''height'')))))"
proof -
  define e where "e = IndexSizeError (if cols src = 0 then ''width'' else ''height'')"
  have thrown: "analyse src c = Inl e" for c
    using assms by (auto simp: analyse_def getImageData_def e_def)
  have rejected: "processImage k src (analyse src c) = ([AddLog StartingCV], Some e)" for c
    unfolding thrown by (simp add: processImage_def)
  have upload: "processedImage (run (handleFileUpload k u) s) = None
            \<and> (imageLoads u \<longrightarrow>
                  status (run (handleFileUpload k u) s) = Error
                  \<and> last (logs (run (handleFileUpload k u) s)) = ErrorMsg (message e))"
    if "uploadedFile u = Some f"
      "if file_type f = ''application/pdf'' then pdfDocument u = Inr (n, Inr src)
       else prefix ''image/'' (file_type f) \<and> dataURL u = Inr src"
    using that rejected [of "contours u"]
    by (cases "file_type f = ''application/pdf''")
       (simp_all add: handleFileUpload_def tryUpload_def readFileAsDataURL_def
          convertPdfToImage_def reset_def run_append)
  from thrown [of found] rejected [of found] upload show ?thesis
    unfolding e_def [symmetric] by simp
qed

text \<open>The upload of an image of 0 by 100 that loads.\<close>

theorem zero_area_page_rejected_witness:
  "cols (blankPage 0 100) * rows (blankPage 0 100) = 0
   \<and> uploadedFile emptyUpload = Some \<lparr>file_name = ''empty.svg'', file_type = ''image/svg+xml''\<rparr>
   \<and> prefix ''image/'' (file_type \<lparr>file_name = ''empty.svg'', file_type = ''image/svg+xml''\<rparr>)
   \<and> dataURL emptyUpload = Inr (blankPage 0 100)
   \<and> imageLoads emptyUpload
   \<and> processImage constKernel (blankPage 0 100)
         (analyse (blankPage 0 100) (contours emptyUpload))
       = ([AddLog StartingCV], Some (IndexSizeError ''width''))
   \<and> status (run (handleFileUpload constKernel emptyUpload) initial_state) = Error
   \<and> processedImage (run (handleFileUpload constKernel emptyUpload) initial_state) = None
   \<and> last (logs (run (handleFileUpload constKernel emptyUpload) initial_state))
       = ErrorMsg (message (IndexSizeError ''width''))"
proof -
  have empty: "cols (blankPage 0 100) * rows (blankPage 0 100) = 0"
    and width: "cols (blankPage 0 100) = 0"
    by (simp_all add: blankPage_def)
  have loaded:
    "uploadedFile emptyUpload = Some \<lparr>file_name = ''empty.svg'', file_type = ''image/svg+xml''\<rparr>"
    "prefix ''image/'' (file_type \<lparr>file_name = ''empty.svg'', file_type = ''image/svg+xml''\<rparr>)"
    "file_type \<lparr>file_name = ''empty.svg'', file_type = ''image/svg+xml''\<rparr> \<noteq> ''application/pdf''"
    "dataURL emptyUpload = Inr (blankPage 0 100)"
    "imageLoads emptyUpload"
    by (simp_all add: emptyUpload_def)
  from zero_area_page_rejected [OF empty, of "contours emptyUpload" constKernel initial_state
      emptyUpload "\<lparr>file_name = ''empty.svg'', file_type = ''image/svg+xml''\<rparr>",
      simplified loaded width simp_thms if_True if_False]
  have "processImage constKernel (blankPage 0 100)
         (analyse (blankPage 0 100) (contours emptyUpload))
       = ([AddLog StartingCV], Some (IndexSizeError ''width''))"
    and "status (run (handleFileUpload constKernel emptyUpload) initial_state) = Error"
    and "processedImage (run (handleFileUpload constKernel emptyUpload) initial_state) = None"
    and "last (logs (run (handleFileUpload constKernel emptyUpload) initial_state))
       = ErrorMsg (message (IndexSizeError ''width''))"
    by blast+
  then show ?thesis
    using empty loaded(1,2,4,5) by (intro conjI)
qed

text \<open>The claim as stated fails: for the image of 0 by 100 no error of the pipeline is
  signalled. While the image does not load, \<^verbatim>\<open>handleFileUpload\<close> catches nothing: the
  status stays \<^verbatim>\<open>processing\<close> and the log has no error line. Once it has loaded, what
  the caller gets is the exception of the browser for an empty rectangle of a canvas.\<close>

theorem zero_area_page_error:
  "cols (blankPage 0 100) * rows (blankPage 0 100) = 0
   \<and> tryUpload constKernel brokenUpload \<lparr>file_name = ''empty.svg'', file_type = ''image/svg+xml''\<rparr>
       = ([AddLog DetectedImage, SetOriginalImage (Some (blankPage 0 100))], None)
   \<and> status (run (handleFileUpload constKernel brokenUpload) initial_state) = Processing
   \<and> logs (run (handleFileUpload constKernel brokenUpload) initial_state)
       = [ReadyForNewFile, ProcessingFile ''empty.svg'', DetectedImage]
   \<and> processedImage (run (handleFileUpload constKernel brokenUpload) initial_state) = None
   \<and> tryUpload constKernel emptyUpload \<lparr>file_name = ''empty.svg'', file_type = ''image/svg+xml''\<rparr>
       = ([AddLog DetectedImage, SetOriginalImage (Some (blankPage 0 100)), AddLog StartingCV],
          Some (JsError
            ''Failed to execute 'getImageData' on 'CanvasRenderingContext2D': The source width is 0.''))
   \<and> status (run (handleFileUpload constKernel emptyUpload) initial_state) = Error
   \<and> logs (run (handleFileUpload constKernel emptyUpload) initial_state)
       = [ReadyForNewFile, ProcessingFile ''empty.svg'', DetectedImage, StartingCV,
          ErrorMsg
            ''Failed to execute 'getImageData' on 'CanvasRenderingContext2D': The source width is 0.'']"
  by (simp add: handleFileUpload_def tryUpload_def readFileAsDataURL_def brokenUpload_def
      emptyUpload_def analyse_def getImageData_def IndexSizeError_def processImage_def
      blankPage_def reset_def initial_state_def)

subsection \<open>C9: no state is carried from one run to the next\<close>

text \<open>
  C9. The best region and the outcome of \<^verbatim>\<open>processImage\<close> are functions of the image
  and of what is found in it alone, the configuration being constant. For an upload of
  the same file, with the same image and the same contours, the status, the log, the
  file, the original image and the processed image afterwards are the same whatever the
  state was before; and whenever \<^verbatim>\<open>processImage\<close> resolves, the processed image and
  the status it leaves do not depend on the state before.
\<close>

theorem no_cross_run_state:
  assumes "uploadedFile u = Some f"
  shows "status (run (handleFileUpload k u) s1) = status (run (handleFileUpload k u) s2)
       \<and> logs (run (handleFileUpload k u) s1) = logs (run (handleFileUpload k u) s2)
       \<and> file' (run (handleFileUpload k u) s1) = file' (run (handleFileUpload k u) s2)
       \<and> originalImage (run (handleFileUpload k u) s1)
           = originalImage (run (handleFileUpload k u) s2)
       \<and> processedImage (run (handleFileUpload k u) s1)
           = processedImage (run (handleFileUpload k u) s2)
       \<and> (snd (processImage k src found) = None \<longrightarrow>
            processedImage (run (fst (processImage k src found)) s1)
              = processedImage (run (fst (processImage k src found)) s2)
          \<and> status (run (fst (processImage k src found)) s1)
              = status (run (fst (processImage k src found)) s2))"
proof -
  obtain rest where "handleFileUpload k u = reset @ rest"
    using assms by (simp add: handleFileUpload_def)
  then have "observable (run (handleFileUpload k u) s1)
           = observable (run (handleFileUpload k u) s2)"
    using run_observable [OF reset_observable [of s1 s2], of rest]
    by (simp add: run_append)
  moreover have "snd (processImage k src found) = None \<longrightarrow>
            processedImage (run (fst (processImage k src found)) s1)
              = processedImage (run (fst (processImage k src found)) s2)
          \<and> status (run (fst (processImage k src found)) s1)
              = status (run (fst (processImage k src found)) s2)"
    using processImage_cases [of k src found]
    by (auto simp: run_append run_AddLog)
  ultimately show ?thesis by (simp add: observable_def)
qed

text \<open>The same label uploaded on the first render and after an earlier run.\<close>

theorem no_cross_run_state_witness:
  "uploadedFile labelUpload = Some \<lparr>file_name = ''label.png'', file_type = ''image/png''\<rparr>
   \<and> snd (processImage constKernel (blankPage 2400 3600) (Inr [portraitLabel])) = None
   \<and> logs (initial_state :: nat app_state) \<noteq> logs processedState
   \<and> logs (run (handleFileUpload constKernel labelUpload) initial_state)
       = logs (run (handleFileUpload constKernel labelUpload) processedState)
   \<and> processedImage (run (handleFileUpload constKernel labelUpload) initial_state)
       = processedImage (run (handleFileUpload constKernel labelUpload) processedState)
   \<and> processedImage
        (run (fst (processImage constKernel (blankPage 2400 3600) (Inr [portraitLabel]))) initial_state)
       = processedImage
           (run (fst (processImage constKernel (blankPage 2400 3600) (Inr [portraitLabel])))
              processedState)"
proof -
  have selected:
    "uploadedFile labelUpload = Some \<lparr>file_name = ''label.png'', file_type = ''image/png''\<rparr>"
    by (simp add: labelUpload_def)
  have resolved: "snd (processImage constKernel (blankPage 2400 3600) (Inr [portraitLabel])) = None"
    by (simp add: processImage_selected [OF selectRegion_portraitLabel])
  have different: "logs (initial_state :: nat app_state) \<noteq> logs processedState"
    by (simp add: initial_state_def processedState_def)
  from no_cross_run_state [OF selected, of constKernel initial_state processedState
      "blankPage 2400 3600" "Inr [portraitLabel]"] resolved
  have "logs (run (handleFileUpload constKernel labelUpload) initial_state)
       = logs (run (handleFileUpload constKernel labelUpload) processedState)"
    and "processedImage (run (handleFileUpload constKernel labelUpload) initial_state)
       = processedImage (run (handleFileUpload constKernel labelUpload) processedState)"
    and "processedImage
        (run (fst (processImage constKernel (blankPage 2400 3600) (Inr [portraitLabel]))) initial_state)
       = processedImage
           (run (fst (processImage constKernel (blankPage 2400 3600) (Inr [portraitLabel])))
              processedState)"
    by blast+
  with selected resolved different show ?thesis
    by (intro conjI)
qed

subsection \<open>C10: rotating without a processed image\<close>

text \<open>
  C10. While there is no processed image, \<^verbatim>\<open>handleRotate\<close>, in either direction,
  makes no setter call: the state afterwards is the state before, and no intermediate
  state is seen.
\<close>

theorem handleRotate_without_image:
  "processedImage s = None \<Longrightarrow>
     handleRotate dir s = [] \<and> run (handleRotate dir s) s = s
     \<and> states (handleRotate dir s) s = []"
  by (simp add: handleRotate_def)

theorem handleRotate_without_image_witness:
  "processedImage (initial_state :: nat app_state) = None
   \<and> run (handleRotate Left initial_state) (initial_state :: nat app_state) = initial_state
   \<and> run (handleRotate Right initial_state) (initial_state :: nat app_state) = initial_state"
proof -
  have none: "processedImage (initial_state :: nat app_state) = None"
    by (simp add: initial_state_def)
  from handleRotate_without_image [OF none, of Left]
    handleRotate_without_image [OF none, of Right] none
  show ?thesis by (intro conjI) blast+
qed

end
